theory Spec2Isabelle
  imports Main "HOL-Library.AList"
begin

section \<open>The identifier allocator of \<^verbatim>\<open>sa_id.py\<close>\<close>

text \<open>
  The development embeds \<^verbatim>\<open>scripts/sa_id.py\<close> (and the one helper of
  \<^verbatim>\<open>sa_util.py\<close> it calls) as HOL functions over an explicit file-system
  tree.  Every exception of the source is a value of type \<open>error\<close>; every function
  that touches the disk takes the world and returns the new one.

  Modelling decisions, all of them about the Python runtime and not about the script:
  \<^item> Python integers are \<open>int\<close>; the optional digit limit of \<^verbatim>\<open>int(str)\<close> and
    \<^verbatim>\<open>str(int)\<close> is not modelled.
  \<^item> A character is a code point below 256.  \<open>\d\<close>, \<^verbatim>\<open>str.strip\<close>, \<^verbatim>\<open>str.splitlines\<close>
    and \<^verbatim>\<open>int(str)\<close> are modelled on the digits, blanks and line breaks of this range;
    each has its own set of blanks.  Every such string can be encoded in UTF-8, so
    \<^verbatim>\<open>json.dump\<close> never fails on the text of a document.
  \<^item> A file holding JSON text is identified with the value \<^verbatim>\<open>json.load\<close> returns
    for it (\<open>JsonDoc\<close>); \<^verbatim>\<open>json.dump\<close> followed by \<^verbatim>\<open>json.load\<close> is the identity
    on documents whose keys are strings, which is all the script ever writes.
  \<^item> A JSON float is a dyadic number or one of the three special values that
    \<^verbatim>\<open>json.load\<close> accepts.
  \<^item> Paths are lists of components below one tree; symbolic links, \<^verbatim>\<open>..\<close> and
    absolute \<^verbatim>\<open>registry_relpath\<close> values are not modelled.
  \<^item> Time is counted in polling intervals of the lock loop (one \<^verbatim>\<open>time.sleep(0.1)\<close>
    each); no other process changes the disk while a call runs.
  \<^item> An operation on the disk fails for what the tree holds (a directory where a file
    is opened, a file where a directory is made), and the write of the temporary file
    fails when the environment says so.  Permissions, and any other failure of
    \<^verbatim>\<open>os.replace\<close>, \<^verbatim>\<open>os.close\<close> or \<^verbatim>\<open>os.unlink\<close>, are not modelled.
\<close>

subsection \<open>Exceptions\<close>

text \<open>
  The script raises \<^verbatim>\<open>ValueError\<close> with one message per cause; the cause is kept as
  a tag.  \<open>InvalidLiteral\<close> and \<open>JSONDecodeError\<close> are the \<^verbatim>\<open>ValueError\<close>s of the
  builtin \<^verbatim>\<open>int\<close> and of \<^verbatim>\<open>json.load\<close>, \<open>UnicodeDecodeError\<close> is a subclass
  of \<^verbatim>\<open>ValueError\<close> as well, and \<open>EmptyName\<close> is the \<^verbatim>\<open>ValueError\<close> of
  \<^verbatim>\<open>Path.with_name\<close>.  \<open>OSError\<close> stands for all of its subclasses but
  \<^verbatim>\<open>FileExistsError\<close> on the lock, which the source catches.

  In the words of the specification: \<^verbatim>\<open>InvalidKind\<close> is \<open>ValueError KindNotInChoices\<close>,
  \<^verbatim>\<open>InvalidArgument\<close> is \<open>ValueError PadNotPositive\<close> (and the three errors about
  \<^verbatim>\<open>--type\<close> and \<^verbatim>\<open>--slug\<close>), \<^verbatim>\<open>RegistryCorrupt\<close> is any of the \<^verbatim>\<open>ValueError\<close>s
  that \<^verbatim>\<open>read_registry\<close> raises itself, and \<^verbatim>\<open>LockTimeout\<close> is \<open>TimeoutError\<close>.
\<close>

datatype value_error =
    KindNotInChoices
  | RegistryNotObject
  | MissingLastId
  | LastIdNotInt
  | CountersNotObject
  | CounterNotInt string
  | SchemaVersionIllegal
  | PadNotPositive
  | TypeSlugTogether
  | TypeSlugOnlyChg
  | SlugIllegal
  | InvalidLiteral
  | JSONDecodeError
  | UnicodeDecodeError
  | EmptyName

datatype error =
    ValueError value_error
  | TypeError
  | KeyError
  | OverflowError
  | TimeoutError
  | OSError

subsection \<open>Python values read from JSON\<close>

datatype pyfloat = Finite int int | NaN | PosInf | NegInf

datatype json =
    JNull
  | JBool bool
  | JInt int
  | JFloat pyfloat
  | JStr string
  | JArr "json list"
  | JObj "(string \<times> json) list"

type_synonym dict = "(string \<times> json) list"

text \<open>
  A \<^verbatim>\<open>dict\<close> is an association list in insertion order: \<^verbatim>\<open>d[k] = v\<close> is
  \<open>AList.update\<close> (an existing key keeps its place, a new one goes last) and
  \<^verbatim>\<open>d.get(k, x)\<close> is \<open>dict_get\<close>.
\<close>

definition dict_get :: "dict \<Rightarrow> string \<Rightarrow> json \<Rightarrow> json" where
  "dict_get d k dflt = (case map_of d k of None \<Rightarrow> dflt | Some v \<Rightarrow> v)"

text \<open>Truth value of a Python object, as \<^verbatim>\<open>x or y\<close> tests it.\<close>

fun truthy :: "json \<Rightarrow> bool" where
  "truthy JNull = False"
| "truthy (JBool b) = b"
| "truthy (JInt i) = (i \<noteq> 0)"
| "truthy (JFloat (Finite m e)) = (m \<noteq> 0)"
| "truthy (JFloat NaN) = True"
| "truthy (JFloat PosInf) = True"
| "truthy (JFloat NegInf) = True"
| "truthy (JStr s) = (s \<noteq> [])"
| "truthy (JArr xs) = (xs \<noteq> [])"
| "truthy (JObj d) = (d \<noteq> [])"

definition py_or :: "json \<Rightarrow> json \<Rightarrow> json" where
  "py_or x y = (if truthy x then x else y)"

subsection \<open>Characters and strings\<close>

definition is_digit :: "char \<Rightarrow> bool" where
  "is_digit c = (c \<in> set ''0123456789'')"

definition digit_val :: "char \<Rightarrow> nat" where
  "digit_val c = of_char c - 48"

text \<open>
  The characters for which \<^verbatim>\<open>str.isspace\<close> holds, which \<^verbatim>\<open>str.strip()\<close> removes, and
  the line boundaries of \<^verbatim>\<open>str.splitlines()\<close>.
\<close>

definition is_space :: "char \<Rightarrow> bool" where
  "is_space c = (c \<in> set [CHR 0x09, CHR 0x0A, CHR 0x0B, CHR 0x0C, CHR 0x0D,
                           CHR 0x1C, CHR 0x1D, CHR 0x1E, CHR 0x1F, CHR '' '',
                           CHR 0x85, CHR 0xA0])"

definition is_linebreak :: "char \<Rightarrow> bool" where
  "is_linebreak c = (c \<in> set [CHR 0x0A, CHR 0x0B, CHR 0x0C, CHR 0x0D,
                               CHR 0x1C, CHR 0x1D, CHR 0x1E, CHR 0x85])"

text \<open>\<^verbatim>\<open>s.strip()\<close> and \<^verbatim>\<open>s.strip(c)\<close> for a single character \<open>c\<close>.\<close>

definition strip :: "string \<Rightarrow> string" where
  "strip s = rev (dropWhile is_space (rev (dropWhile is_space s)))"

definition strip_char :: "char \<Rightarrow> string \<Rightarrow> string" where
  "strip_char c s = rev (dropWhile (\<lambda>x. x = c) (rev (dropWhile (\<lambda>x. x = c) s)))"

definition startswith :: "string \<Rightarrow> string \<Rightarrow> bool" where
  "startswith s p = (take (length p) s = p)"

text \<open>
  \<^verbatim>\<open>s.splitlines()\<close>: a line ends at a line break, \<^verbatim>\<open>\r\n\<close> counts once, and
  there is no empty last line.
\<close>

fun splitlines_from :: "string \<Rightarrow> string \<Rightarrow> string list" where
  "splitlines_from cur [] = (if cur = [] then [] else [cur])"
| "splitlines_from cur [c] =
     (if is_linebreak c then [cur] else [cur @ [c]])"
| "splitlines_from cur (c # d # cs) =
     (if c = CHR 0x0D \<and> d = CHR 0x0A then cur # splitlines_from [] cs
      else if is_linebreak c then cur # splitlines_from [] (d # cs)
      else splitlines_from (cur @ [c]) (d # cs))"

definition splitlines :: "string \<Rightarrow> string list" where
  "splitlines s = splitlines_from [] s"

text \<open>The value of a run of decimal digits.\<close>

definition digits_val :: "string \<Rightarrow> nat" where
  "digits_val ds = foldl (\<lambda>a c. 10 * a + digit_val c) 0 ds"

subsection \<open>The builtins \<^verbatim>\<open>int\<close>, \<^verbatim>\<open>str\<close> and \<^verbatim>\<open>str.zfill\<close>\<close>

text \<open>
  \<^verbatim>\<open>int(s)\<close> for a string: blanks around, an optional sign, then digits with single
  underscores allowed between two digits.  The blanks that \<^verbatim>\<open>int\<close> skips are not those
  of \<^verbatim>\<open>str.strip\<close>: they are the six characters of the C function \<^verbatim>\<open>isspace\<close>, and
  the blanks above 127, which \<^verbatim>\<open>int\<close> turns into spaces before it parses.  The four
  separators \<^verbatim>\<open>0x1C\<close> to \<^verbatim>\<open>0x1F\<close> are not skipped: \<^verbatim>\<open>int("\x1f5")\<close> raises
  \<^verbatim>\<open>ValueError\<close>.
\<close>

definition is_int_space :: "char \<Rightarrow> bool" where
  "is_int_space c = (c \<in> set [CHR 0x09, CHR 0x0A, CHR 0x0B, CHR 0x0C, CHR 0x0D, CHR '' '',
                               CHR 0x85, CHR 0xA0])"

fun parse_us :: "nat \<Rightarrow> string \<Rightarrow> nat option" where
  "parse_us acc [] = Some acc"
| "parse_us acc [c] = (if is_digit c then Some (10 * acc + digit_val c) else None)"
| "parse_us acc (c # d # cs) =
     (if is_digit c then parse_us (10 * acc + digit_val c) (d # cs)
      else if c = CHR ''_'' \<and> is_digit d then parse_us (10 * acc + digit_val d) cs
      else None)"

definition parse_nat :: "string \<Rightarrow> nat option" where
  "parse_nat s =
     (case s of [] \<Rightarrow> None
      | c # cs \<Rightarrow> if is_digit c then parse_us (digit_val c) cs else None)"

definition int_of_str :: "string \<Rightarrow> int option" where
  "int_of_str s =
     (case rev (dropWhile is_int_space (rev (dropWhile is_int_space s))) of
        [] \<Rightarrow> None
      | c # cs \<Rightarrow>
          if c = CHR ''-'' then map_option (\<lambda>n. - int n) (parse_nat cs)
          else if c = CHR ''+'' then map_option int (parse_nat cs)
          else map_option int (parse_nat (c # cs)))"

text \<open>\<^verbatim>\<open>int(x)\<close> for a float truncates towards zero.\<close>

definition float_trunc :: "int \<Rightarrow> int \<Rightarrow> int" where
  "float_trunc m e =
     (if 0 \<le> e then m * 2 ^ nat e else sgn m * (\<bar>m\<bar> div 2 ^ nat (- e)))"

fun py_int :: "json \<Rightarrow> error + int" where
  "py_int JNull = Inl TypeError"
| "py_int (JBool b) = Inr (if b then 1 else 0)"
| "py_int (JInt i) = Inr i"
| "py_int (JFloat (Finite m e)) = Inr (float_trunc m e)"
| "py_int (JFloat NaN) = Inl (ValueError InvalidLiteral)"
| "py_int (JFloat PosInf) = Inl OverflowError"
| "py_int (JFloat NegInf) = Inl OverflowError"
| "py_int (JStr s) =
     (case int_of_str s of None \<Rightarrow> Inl (ValueError InvalidLiteral) | Some i \<Rightarrow> Inr i)"
| "py_int (JArr xs) = Inl TypeError"
| "py_int (JObj d) = Inl TypeError"

definition digit_char :: "nat \<Rightarrow> char" where
  "digit_char d = ''0123456789'' ! d"

fun str_nat :: "nat \<Rightarrow> string" where
  "str_nat n = (if n < 10 then [digit_char n] else str_nat (n div 10) @ [digit_char (n mod 10)])"

declare str_nat.simps [simp del]

definition py_str :: "int \<Rightarrow> string" where
  "py_str i = (if i < 0 then CHR ''-'' # str_nat (nat (- i)) else str_nat (nat i))"

text \<open>
  \<^verbatim>\<open>s.zfill(width)\<close>: zeros are inserted after a leading sign; a string that is
  already \<open>width\<close> long, or longer, comes back as it is.
\<close>

definition zfill :: "string \<Rightarrow> int \<Rightarrow> string" where
  "zfill s width =
     (if width \<le> int (length s) then s
      else let fill = replicate (nat (width - int (length s))) CHR ''0'' in
        case s of [] \<Rightarrow> fill
        | c # cs \<Rightarrow> if c = CHR ''+'' \<or> c = CHR ''-'' then c # fill @ cs else fill @ s)"

subsection \<open>The file system\<close>

text \<open>
  A file holds JSON text (identified with its parsed value), other text, or bytes that
  are not UTF-8.  A directory lists its entries by name.
\<close>

datatype fcontent = JsonDoc json | Text string | Binary

datatype fsnode = File fcontent | Dir "(string \<times> fsnode) list"

type_synonym path = "string list"

fun lookup :: "fsnode \<Rightarrow> path \<Rightarrow> fsnode option" where
  "lookup n [] = Some n"
| "lookup (File c) (x # xs) = None"
| "lookup (Dir es) (x # xs) =
     (case map_of es x of None \<Rightarrow> None | Some n \<Rightarrow> lookup n xs)"

text \<open>The entry of a directory that a path continues into; a fresh one when it is missing.\<close>

definition child :: "(string \<times> fsnode) list \<Rightarrow> string \<Rightarrow> fsnode" where
  "child es x = (case map_of es x of None \<Rightarrow> Dir [] | Some n \<Rightarrow> n)"

text \<open>
  \<^verbatim>\<open>p.mkdir(parents=True, exist_ok=True)\<close>: fails when \<open>p\<close> or one of its ancestors
  is a file, and then nothing has been created.
\<close>

fun mkdir_p :: "fsnode \<Rightarrow> path \<Rightarrow> error + fsnode" where
  "mkdir_p (File c) p = Inl OSError"
| "mkdir_p (Dir es) [] = Inr (Dir es)"
| "mkdir_p (Dir es) (x # xs) =
     (case mkdir_p (child es x) xs of
        Inl e \<Rightarrow> Inl e
      | Inr n \<Rightarrow> Inr (Dir (AList.update x n es)))"

text \<open>Creating or replacing the entry at a path whose parent is a directory.\<close>

fun put :: "fsnode \<Rightarrow> path \<Rightarrow> fsnode \<Rightarrow> fsnode" where
  "put t [] n = n"
| "put (File c) (x # xs) n = File c"
| "put (Dir es) (x # xs) n = Dir (AList.update x (put (child es x) xs n) es)"

text \<open>Removing the entry at a path; nothing happens when it is not there.\<close>

fun remove :: "fsnode \<Rightarrow> path \<Rightarrow> fsnode" where
  "remove t [] = t"
| "remove (File c) (x # xs) = File c"
| "remove (Dir es) (x # xs) =
     (if xs = [] then Dir (AList.delete x es)
      else case map_of es x of
             None \<Rightarrow> Dir es
           | Some n \<Rightarrow> Dir (AList.update x (remove n xs) es))"

text \<open>
  \<^verbatim>\<open>p.with_name(p.name + suffix)\<close>, which is also what
  \<^verbatim>\<open>p.with_suffix(p.suffix + suffix)\<close> yields; a path with an empty name raises.
\<close>

definition with_name_suffix :: "path \<Rightarrow> string \<Rightarrow> error + path" where
  "with_name_suffix p suffix =
     (if p = [] then Inl (ValueError EmptyName) else Inr (butlast p @ [last p @ suffix]))"

subsection \<open>The world of one process\<close>

datatype io_event =
    Mkdir path
  | OpenExcl path
  | Sleep
  | Close nat
  | Unlink path
  | Read path
  | Scan path
  | Write path
  | Replace path path

record world =
  fs :: fsnode
  open_fds :: "nat list"
  io_log :: "io_event list"

text \<open>
  What the environment decides during one call: the two readings of the clock that
  \<^verbatim>\<open>utc_now_iso\<close> returns (when the registry is created and when it is updated), and
  whether writing the temporary file fails (a full disk, say).
\<close>

record env =
  now_created :: string
  now_updated :: string
  write_fault :: bool

text \<open>
  \<^verbatim>\<open>timeout_sec\<close> in polling intervals; \<open>Never\<close> is a timeout that no elapsed time
  reaches (\<^verbatim>\<open>inf\<close>, \<^verbatim>\<open>nan\<close>).
\<close>

datatype timeout = Ticks int | Never

fun timed_out :: "timeout \<Rightarrow> nat \<Rightarrow> bool" where
  "timed_out (Ticks n) elapsed = (n \<le> int elapsed)"
| "timed_out Never elapsed = False"

definition log :: "io_event list \<Rightarrow> world \<Rightarrow> world" where
  "log evs w = w\<lparr>io_log := io_log w @ evs\<rparr>"

subsection \<open>\<^verbatim>\<open>write_json_atomic\<close>\<close>

definition write_json_atomic :: "env \<Rightarrow> world \<Rightarrow> path \<Rightarrow> dict \<Rightarrow> (error + unit) \<times> world" where
  "write_json_atomic env w path data =
     (case mkdir_p (fs w) (butlast path) of
        Inl e \<Rightarrow> (Inl e, log [Mkdir (butlast path)] w)
      | Inr fs1 \<Rightarrow>
          let w1 = log [Mkdir (butlast path)] (w\<lparr>fs := fs1\<rparr>) in
          (case with_name_suffix path ''.tmp'' of
             Inl e \<Rightarrow> (Inl e, w1)
           | Inr tmp_path \<Rightarrow>
               (case lookup fs1 tmp_path of
                  Some (Dir es) \<Rightarrow> (Inl OSError, log [Write tmp_path] w1)
                | _ \<Rightarrow>
                    if write_fault env
                    then (Inl OSError,
                          log [Write tmp_path] (w1\<lparr>fs := put fs1 tmp_path (File (Text []))\<rparr>))
                    else
                      let fs2 = put fs1 tmp_path (File (JsonDoc (JObj data)));
                          w2 = log [Write tmp_path] (w1\<lparr>fs := fs2\<rparr>)
                      in (case lookup fs2 path of
                            Some (Dir es) \<Rightarrow> (Inl OSError, log [Replace tmp_path path] w2)
                          | _ \<Rightarrow>
                              (Inr (),
                               log [Replace tmp_path path]
                                 (w2\<lparr>fs := put (remove fs2 tmp_path) path
                                              (File (JsonDoc (JObj data)))\<rparr>))))))"

subsection \<open>The lock\<close>

record lock_handle =
  fd :: nat
  lock_path :: path

definition fresh_fd :: "nat list \<Rightarrow> nat" where
  "fresh_fd fds = Suc (fold max fds 2)"

text \<open>
  The loop of \<^verbatim>\<open>acquire_lock\<close>.  \<^verbatim>\<open>os.open\<close> with \<^verbatim>\<open>O_CREAT | O_EXCL\<close> fails when
  anything exists at the path.  With a lock that stays and a timeout that is never
  reached the loop does not end: its value is \<open>None\<close>.
\<close>

partial_function (option) lock_loop ::
  "world \<Rightarrow> path \<Rightarrow> timeout \<Rightarrow> nat \<Rightarrow> ((error + lock_handle) \<times> world) option" where
  "lock_loop w lp timeout_sec elapsed =
     (if lookup (fs w) lp = None
      then Some (Inr \<lparr>fd = fresh_fd (open_fds w), lock_path = lp\<rparr>,
                 log [OpenExcl lp]
                   (w\<lparr>fs := put (fs w) lp (File (Text [])),
                      open_fds := fresh_fd (open_fds w) # open_fds w\<rparr>))
      else if timed_out timeout_sec elapsed
      then Some (Inl TimeoutError, log [OpenExcl lp] w)
      else lock_loop (log [OpenExcl lp, Sleep] w) lp timeout_sec (Suc elapsed))"

declare lock_loop.simps [code]

definition acquire_lock ::
  "world \<Rightarrow> path \<Rightarrow> timeout \<Rightarrow> ((error + lock_handle) \<times> world) option" where
  "acquire_lock w lp timeout_sec =
     (case mkdir_p (fs w) (butlast lp) of
        Inl e \<Rightarrow> Some (Inl e, log [Mkdir (butlast lp)] w)
      | Inr fs1 \<Rightarrow> lock_loop (log [Mkdir (butlast lp)] (w\<lparr>fs := fs1\<rparr>)) lp timeout_sec 0)"

text \<open>
  \<^verbatim>\<open>release_lock\<close>: close, then unlink; a lock file that is already gone
  (\<^verbatim>\<open>FileNotFoundError\<close>) is not an error.
\<close>

definition release_lock :: "world \<Rightarrow> lock_handle \<Rightarrow> world" where
  "release_lock w handle =
     log [Close (fd handle), Unlink (lock_path handle)]
       (w\<lparr>open_fds := removeAll (fd handle) (open_fds w),
          fs := (if lookup (fs w) (lock_path handle) = None then fs w
                 else remove (fs w) (lock_path handle))\<rparr>)"

subsection \<open>\<^verbatim>\<open>read_registry\<close>\<close>

text \<open>
  The loop over \<^verbatim>\<open>counters.items()\<close>.  Keys of a JSON object are strings, so the
  test \<^verbatim>\<open>isinstance(k, str)\<close> never skips an entry.  Only \<^verbatim>\<open>TypeError\<close> and
  \<^verbatim>\<open>ValueError\<close> are caught.
\<close>

fun normalize_counters :: "dict \<Rightarrow> dict \<Rightarrow> error + dict" where
  "normalize_counters normalized [] = Inr normalized"
| "normalize_counters normalized ((k, v) # items) =
     (case py_int v of
        Inl TypeError \<Rightarrow> Inl (ValueError (CounterNotInt k))
      | Inl (ValueError m) \<Rightarrow> Inl (ValueError (CounterNotInt k))
      | Inl e \<Rightarrow> Inl e
      | Inr n \<Rightarrow> normalize_counters (AList.update k (JInt n) normalized) items)"

text \<open>The part of \<^verbatim>\<open>read_registry\<close> that follows \<^verbatim>\<open>json.load\<close>.\<close>

definition check_registry :: "json \<Rightarrow> error + dict" where
  "check_registry doc =
     (case doc of
        JObj data0 \<Rightarrow>
          (case py_int (py_or (dict_get data0 ''schema_version'' (JInt 1)) (JInt 1)) of
             Inl e \<Rightarrow> Inl e
           | Inr schema_version \<Rightarrow>
               let data = AList.update ''schema_version'' (JInt schema_version) data0 in
               if schema_version = 1 then
                 (case map_of data ''last_id'' of
                    None \<Rightarrow> Inl (ValueError MissingLastId)
                  | Some v \<Rightarrow>
                      (case py_int v of
                         Inl TypeError \<Rightarrow> Inl (ValueError LastIdNotInt)
                       | Inl (ValueError m) \<Rightarrow> Inl (ValueError LastIdNotInt)
                       | Inl e \<Rightarrow> Inl e
                       | Inr n \<Rightarrow> Inr (AList.update ''last_id'' (JInt n) data)))
               else if 2 \<le> schema_version then
                 (case dict_get data ''counters'' JNull of
                    JNull \<Rightarrow> Inr (AList.update ''counters'' (JObj []) data)
                  | JObj counters \<Rightarrow>
                      (case normalize_counters [] counters of
                         Inl e \<Rightarrow> Inl e
                       | Inr normalized \<Rightarrow>
                           Inr (AList.update ''counters'' (JObj normalized) data))
                  | _ \<Rightarrow> Inl (ValueError CountersNotObject))
               else Inl (ValueError SchemaVersionIllegal))
      | _ \<Rightarrow> Inl (ValueError RegistryNotObject))"

definition read_registry :: "fsnode \<Rightarrow> path \<Rightarrow> error + dict option" where
  "read_registry t path =
     (case lookup t path of
        None \<Rightarrow> Inr None
      | Some (Dir es) \<Rightarrow> Inl OSError
      | Some (File Binary) \<Rightarrow> Inl (ValueError UnicodeDecodeError)
      | Some (File (Text s)) \<Rightarrow> Inl (ValueError JSONDecodeError)
      | Some (File (JsonDoc doc)) \<Rightarrow>
          (case check_registry doc of Inl e \<Rightarrow> Inl e | Inr data \<Rightarrow> Inr (Some data)))"

subsection \<open>\<^verbatim>\<open>extract_frontmatter_value\<close> (from \<^verbatim>\<open>sa_util.py\<close>)\<close>

definition extract_frontmatter_value :: "string \<Rightarrow> string \<Rightarrow> string option" where
  "extract_frontmatter_value markdown key =
     (case splitlines markdown of
        [] \<Rightarrow> None
      | first # rest \<Rightarrow>
          if strip first \<noteq> ''---'' then None
          else
            let fm_lines = takeWhile (\<lambda>l. strip l \<noteq> ''---'') rest in
            if length fm_lines = length rest then None
            else
              (case filter (\<lambda>l. startswith l (key @ '':'')) fm_lines of
                 [] \<Rightarrow> None
               | line # others \<Rightarrow>
                   Some (strip_char (CHR 0x27)
                          (strip_char (CHR 0x22) (strip (drop (length (key @ '':'')) line))))))"

subsection \<open>\<^verbatim>\<open>scan_max_ids\<close>\<close>

text \<open>
  \<^verbatim>\<open>LEADING_ID_RE.match(name)\<close>, the pattern \<^verbatim>\<open>^(?P<id>\d+)_\<close>: the digits the name
  starts with, when there is one at least and an underscore follows.  The result is
  \<^verbatim>\<open>int(m.group("id"))\<close>, which cannot fail on digits.
\<close>

definition leading_id :: "string \<Rightarrow> int option" where
  "leading_id name =
     (let ds = takeWhile is_digit name; rest = dropWhile is_digit name in
      if ds \<noteq> [] \<and> rest \<noteq> [] \<and> hd rest = CHR ''_'' then Some (int (digits_val ds)) else None)"

text \<open>
  \<^verbatim>\<open>STABLE_ID_RE.match(doc_id)\<close>, the pattern \<^verbatim>\<open>^(?P<prefix>CHG|SPEC)-(?P<id>\d+)$\<close>;
  \<^verbatim>\<open>$\<close> also matches before one final newline.  The result is the pair of groups.
\<close>

definition match_prefix :: "string \<Rightarrow> string \<Rightarrow> (string \<times> string) option" where
  "match_prefix prefix s =
     (let rest = drop (length prefix + 1) s;
          ds = (if rest \<noteq> [] \<and> last rest = CHR 0x0A then butlast rest else rest)
      in if startswith s (prefix @ ''-'') \<and> ds \<noteq> [] \<and> list_all is_digit ds
         then Some (prefix, ds) else None)"

definition stable_id_match :: "string \<Rightarrow> (string \<times> string) option" where
  "stable_id_match s =
     (case match_prefix ''CHG'' s of Some g \<Rightarrow> Some g | None \<Rightarrow> match_prefix ''SPEC'' s)"

record scanned =
  chg :: int
  spec :: int

definition bump_chg :: "string \<Rightarrow> int \<Rightarrow> int" where
  "bump_chg name max_chg =
     (case leading_id name of
        None \<Rightarrow> max_chg
      | Some v \<Rightarrow> if max_chg < v then v else max_chg)"

text \<open>A loop over \<^verbatim>\<open>iterdir()\<close> that skips what is not a directory.\<close>

definition bump_dirs :: "(string \<times> fsnode) list \<Rightarrow> int \<Rightarrow> int" where
  "bump_dirs es max_chg =
     fold (\<lambda>(name, n) acc. case n of Dir cs \<Rightarrow> bump_chg name acc | File c \<Rightarrow> acc) es max_chg"

definition bump_months :: "(string \<times> fsnode) list \<Rightarrow> int \<Rightarrow> int" where
  "bump_months months max_chg =
     fold (\<lambda>(name, n) acc. case n of Dir ts \<Rightarrow> bump_dirs ts acc | File c \<Rightarrow> acc)
       months max_chg"

text \<open>
  \<^verbatim>\<open>specs_dir.glob("*/*/spec.md")\<close>: whatever is called \<^verbatim>\<open>spec.md\<close> two directories
  below.
\<close>

definition glob_spec_md :: "(string \<times> fsnode) list \<Rightarrow> fsnode list" where
  "glob_spec_md ds =
     concat (map (\<lambda>(a, n). case n of
                     File c \<Rightarrow> []
                   | Dir es \<Rightarrow>
                       concat (map (\<lambda>(b, m). case m of
                                      File c \<Rightarrow> []
                                    | Dir bs \<Rightarrow>
                                        (case map_of bs ''spec.md'' of
                                           None \<Rightarrow> []
                                         | Some f \<Rightarrow> [f])) es)) ds)"

definition bump_spec :: "string \<Rightarrow> int \<Rightarrow> int" where
  "bump_spec text max_spec =
     (let doc_id = (case extract_frontmatter_value text ''id'' of
                      None \<Rightarrow> [] | Some v \<Rightarrow> v)
      in case stable_id_match doc_id of
           None \<Rightarrow> max_spec
         | Some (prefix, ds) \<Rightarrow>
             if prefix \<noteq> ''SPEC'' then max_spec
             else if max_spec < int (digits_val ds) then int (digits_val ds)
             else max_spec)"

text \<open>
  The loop over the \<^verbatim>\<open>spec.md\<close> files.  \<^verbatim>\<open>read_text\<close> raises on a directory and on
  bytes that are not UTF-8.  JSON text never starts with the line \<^verbatim>\<open>---\<close>, so such
  a file has no front matter.
\<close>

fun scan_specs :: "fsnode list \<Rightarrow> int \<Rightarrow> error + int" where
  "scan_specs [] max_spec = Inr max_spec"
| "scan_specs (Dir es # rest) max_spec = Inl OSError"
| "scan_specs (File Binary # rest) max_spec = Inl (ValueError UnicodeDecodeError)"
| "scan_specs (File (Text t) # rest) max_spec = scan_specs rest (bump_spec t max_spec)"
| "scan_specs (File (JsonDoc j) # rest) max_spec = scan_specs rest max_spec"

text \<open>
  \<^verbatim>\<open>exists()\<close> holds for a file as well, and \<^verbatim>\<open>iterdir()\<close> then raises
  \<^verbatim>\<open>NotADirectoryError\<close>; \<^verbatim>\<open>glob\<close> on a file yields nothing.
\<close>

definition scan_max_ids :: "fsnode \<Rightarrow> path \<Rightarrow> error + scanned" where
  "scan_max_ids t superagents_dir =
     (case (case lookup t (superagents_dir @ [''tasks'']) of
              None \<Rightarrow> Inr 0
            | Some (File c) \<Rightarrow> Inl OSError
            | Some (Dir es) \<Rightarrow> Inr (bump_dirs es 0)) of
        Inl e \<Rightarrow> Inl e
      | Inr max_chg1 \<Rightarrow>
          (case (case lookup t (superagents_dir @ [''.sa'', ''history'']) of
                   None \<Rightarrow> Inr max_chg1
                 | Some (File c) \<Rightarrow> Inl OSError
                 | Some (Dir months) \<Rightarrow> Inr (bump_months months max_chg1)) of
             Inl e \<Rightarrow> Inl e
           | Inr max_chg \<Rightarrow>
               (case (case lookup t (superagents_dir @ [''specs'']) of
                        None \<Rightarrow> Inr 0
                      | Some (File c) \<Rightarrow> Inr 0
                      | Some (Dir ds) \<Rightarrow> scan_specs (glob_spec_md ds) 0) of
                  Inl e \<Rightarrow> Inl e
                | Inr max_spec \<Rightarrow> Inr \<lparr>chg = max_chg, spec = max_spec\<rparr>)))"

subsection \<open>\<^verbatim>\<open>allocate_next_id\<close>\<close>

definition KIND_CHOICES :: "string list" where
  "KIND_CHOICES = [''chg'', ''spec'']"

definition KIND_PREFIX :: "(string \<times> string) list" where
  "KIND_PREFIX = [(''chg'', ''CHG''), (''spec'', ''SPEC'')]"

record allocation =
  a_id :: int
  a_padded_id :: string
  a_stable_id :: string
  a_kind :: string
  a_registry_path :: path
  a_dry_run :: bool

text \<open>
  The dictionary that a value is.  After \<^verbatim>\<open>read_registry\<close> the value stored under
  \<^verbatim>\<open>counters\<close> is always one; \<^verbatim>\<open>dict(x)\<close> copies it, which yields an equal list.
\<close>

definition as_dict :: "json \<Rightarrow> error + dict" where
  "as_dict v = (case v of JObj d \<Rightarrow> Inr d | _ \<Rightarrow> Inl TypeError)"

text \<open>
  The three branches that bring the registry to the current format and raise its
  counters to the scanned maxima (the \<^verbatim>\<open>if\<close> \<^verbatim>\<open>elif\<close> \<^verbatim>\<open>else\<close> after the scan).
\<close>

definition reconcile :: "env \<Rightarrow> dict option \<Rightarrow> scanned \<Rightarrow> error + dict" where
  "reconcile env registry sc =
     (case registry of
        None \<Rightarrow>
          Inr [(''schema_version'', JInt 2),
               (''counters'', JObj [(''chg'', JInt (chg sc)), (''spec'', JInt (spec sc))]),
               (''updated_at'', JStr (now_created env))]
      | Some reg \<Rightarrow>
          (case py_int (dict_get reg ''schema_version'' (JInt 1)) of
             Inl e \<Rightarrow> Inl e
           | Inr v \<Rightarrow>
               if v = 1 then
                 (case py_int (dict_get reg ''last_id'' (JInt 0)) of
                    Inl e \<Rightarrow> Inl e
                  | Inr last_id \<Rightarrow>
                      Inr [(''schema_version'', JInt 2),
                           (''counters'', JObj [(''chg'', JInt (max (chg sc) last_id)),
                                                (''spec'', JInt (spec sc))]),
                           (''updated_at'', JStr (now_created env))])
               else
                 (case as_dict (py_or (dict_get reg ''counters'' JNull) (JObj [])) of
                    Inl e \<Rightarrow> Inl e
                  | Inr counters0 \<Rightarrow>
                      (case py_int (dict_get counters0 ''chg'' (JInt 0)) of
                         Inl e \<Rightarrow> Inl e
                       | Inr c \<Rightarrow>
                           let counters1 =
                                 AList.update ''chg'' (JInt (max c (chg sc))) counters0
                           in (case py_int (dict_get counters1 ''spec'' (JInt 0)) of
                                 Inl e \<Rightarrow> Inl e
                               | Inr s \<Rightarrow>
                                   let counters2 =
                                         AList.update ''spec'' (JInt (max s (spec sc))) counters1
                                   in (case py_int (py_or (dict_get reg ''schema_version'' (JInt 2))
                                                     (JInt 2)) of
                                         Inl e \<Rightarrow> Inl e
                                       | Inr v2 \<Rightarrow>
                                           Inr (AList.update ''counters'' (JObj counters2)
                                                 (AList.update ''schema_version'' (JInt v2)
                                                    reg))))))))"

text \<open>
  The returned dictionary (\<^verbatim>\<open>padded_id\<close>, \<^verbatim>\<open>stable_id\<close> and the \<^verbatim>\<open>return\<close>
  statement).
\<close>

definition format_allocation ::
  "path \<Rightarrow> int \<Rightarrow> bool \<Rightarrow> string \<Rightarrow> string \<Rightarrow> int \<Rightarrow> allocation" where
  "format_allocation registry_path pad dry_run kind prefix next_id =
     (let padded_id = zfill (py_str next_id) pad;
          stable_id = prefix @ ''-'' @ padded_id
      in \<lparr>a_id = next_id, a_padded_id = padded_id, a_stable_id = stable_id, a_kind = kind,
          a_registry_path = registry_path, a_dry_run = dry_run\<rparr>)"

text \<open>
  The two assignments before the write.  \<open>counters\<close> is the very dictionary stored in
  the registry, so \<^verbatim>\<open>counters[kind] = next_id\<close> changes the registry that is written.
\<close>

definition bump_registry :: "env \<Rightarrow> dict \<Rightarrow> dict \<Rightarrow> string \<Rightarrow> int \<Rightarrow> dict" where
  "bump_registry env registry counters kind next_id =
     AList.update ''updated_at'' (JStr (now_updated env))
       (AList.update ''counters'' (JObj (AList.update kind (JInt next_id) counters)) registry)"

text \<open>From \<^verbatim>\<open>counters = registry["counters"]\<close> to the end of the \<^verbatim>\<open>try\<close> block.\<close>

definition allocate_from ::
  "env \<Rightarrow> world \<Rightarrow> path \<Rightarrow> int \<Rightarrow> bool \<Rightarrow> string \<Rightarrow> string \<Rightarrow> dict
     \<Rightarrow> (error + allocation) \<times> world" where
  "allocate_from env w registry_path pad dry_run kind prefix registry =
     (case map_of registry ''counters'' of
        None \<Rightarrow> (Inl KeyError, w)
      | Some cv \<Rightarrow>
          (case as_dict cv of
             Inl e \<Rightarrow> (Inl e, w)
           | Inr counters \<Rightarrow>
               (case py_int (dict_get counters kind (JInt 0)) of
                  Inl e \<Rightarrow> (Inl e, w)
                | Inr current \<Rightarrow>
                    let next_id = current + 1;
                        result = format_allocation registry_path pad dry_run kind prefix next_id
                    in if \<not> dry_run then
                         (case write_json_atomic env w registry_path
                                 (bump_registry env registry counters kind next_id) of
                            (Inl e, w') \<Rightarrow> (Inl e, w')
                          | (Inr u, w') \<Rightarrow> (Inr result, w'))
                       else (Inr result, w))))"

text \<open>\<^verbatim>\<open>scan_max_ids(superagents_dir) if scan else {"chg": 0, "spec": 0}\<close>\<close>

definition scanned_ids :: "bool \<Rightarrow> fsnode \<Rightarrow> path \<Rightarrow> error + scanned" where
  "scanned_ids scan t superagents_dir =
     (if scan then scan_max_ids t superagents_dir else Inr \<lparr>chg = 0, spec = 0\<rparr>)"

text \<open>The body of the \<^verbatim>\<open>try\<close> block, run with the lock held.\<close>

definition allocate_locked ::
  "env \<Rightarrow> world \<Rightarrow> path \<Rightarrow> path \<Rightarrow> int \<Rightarrow> bool \<Rightarrow> bool \<Rightarrow> string
     \<Rightarrow> (error + allocation) \<times> world" where
  "allocate_locked env w root registry_relpath pad dry_run scan kind =
     (let registry_path = root @ registry_relpath in
      if kind \<notin> set KIND_CHOICES then (Inl (ValueError KindNotInChoices), w)
      else
        (case map_of KIND_PREFIX kind of
           None \<Rightarrow> (Inl KeyError, w)
         | Some prefix \<Rightarrow>
             (case read_registry (fs w) registry_path of
                Inl e \<Rightarrow> (Inl e, log [Read registry_path] w)
              | Inr registry \<Rightarrow>
                  let superagents_dir = root @ butlast registry_relpath;
                      w1 = log (if scan then [Read registry_path, Scan superagents_dir]
                                else [Read registry_path]) w
                  in (case scanned_ids scan (fs w) superagents_dir of
                        Inl e \<Rightarrow> (Inl e, w1)
                      | Inr sc \<Rightarrow>
                          (case reconcile env registry sc of
                             Inl e \<Rightarrow> (Inl e, w1)
                           | Inr registry1 \<Rightarrow>
                               allocate_from env w1 registry_path pad dry_run kind prefix
                                 registry1)))))"

text \<open>
  The lock is taken before the \<^verbatim>\<open>try\<close> block and released in its \<^verbatim>\<open>finally\<close>
  clause.  \<open>None\<close> is a call that never returns.
\<close>

definition allocate_next_id ::
  "env \<Rightarrow> world \<Rightarrow> path \<Rightarrow> path \<Rightarrow> int \<Rightarrow> timeout \<Rightarrow> bool \<Rightarrow> bool \<Rightarrow> string
     \<Rightarrow> ((error + allocation) \<times> world) option" where
  "allocate_next_id env w root registry_relpath pad timeout_sec dry_run scan kind =
     (case with_name_suffix (root @ registry_relpath) ''.lock'' of
        Inl e \<Rightarrow> Some (Inl e, w)
      | Inr lp \<Rightarrow>
          (case acquire_lock w lp timeout_sec of
             None \<Rightarrow> None
           | Some (Inl e, w1) \<Rightarrow> Some (Inl e, w1)
           | Some (Inr handle, w1) \<Rightarrow>
               (case allocate_locked env w1 root registry_relpath pad dry_run scan kind of
                  (r, w2) \<Rightarrow> Some (r, release_lock w2 handle))))"

subsection \<open>The command line: \<^verbatim>\<open>normalize_slug\<close> and \<^verbatim>\<open>main\<close>\<close>









subsection \<open>Scenarios\<close>

text \<open>
  A process that has no file open and has done nothing yet, an environment without
  faults, and the registry path that \<^verbatim>\<open>--registry\<close> defaults to and that
  \<^verbatim>\<open>sa_new.py\<close> and \<^verbatim>\<open>sa_new_spec.py\<close> pass.
\<close>

definition new_world :: "fsnode \<Rightarrow> world" where
  "new_world t = \<lparr>fs = t, open_fds = [], io_log = []\<rparr>"

definition env_ok :: env where
  "env_ok = \<lparr>now_created = ''2026-01-01T00:00:00Z'', now_updated = ''2026-01-01T00:00:01Z'',
             write_fault = False\<rparr>"

definition default_registry :: path where
  "default_registry = [''superagents'', ''.sa'', ''registry.json'']"

text \<open>
  A client that calls \<^verbatim>\<open>allocate_next_id\<close> once per environment of a list, one call
  after the other, never as a dry run, and stops at the first call that does not
  return an allocation.  The result lists each allocation with the world it left.
\<close>

fun allocate_many ::
  "env list \<Rightarrow> world \<Rightarrow> path \<Rightarrow> path \<Rightarrow> int \<Rightarrow> timeout \<Rightarrow> bool \<Rightarrow> string
     \<Rightarrow> (allocation \<times> world) list option" where
  "allocate_many [] w root registry_relpath pad timeout_sec scan kind = Some []"
| "allocate_many (env # envs) w root registry_relpath pad timeout_sec scan kind =
     (case allocate_next_id env w root registry_relpath pad timeout_sec False scan kind of
        Some (Inr a, w') \<Rightarrow>
          (case allocate_many envs w' root registry_relpath pad timeout_sec scan kind of
             Some rs \<Rightarrow> Some ((a, w') # rs)
           | None \<Rightarrow> None)
      | _ \<Rightarrow> None)"

text \<open>The registry as the allocator writes it when it started without one.\<close>

definition registry_v2 :: "int \<Rightarrow> int \<Rightarrow> string \<Rightarrow> dict" where
  "registry_v2 c s stamp =
     [(''schema_version'', JInt 2),
      (''counters'', JObj [(''chg'', JInt c), (''spec'', JInt s)]),
      (''updated_at'', JStr stamp)]"

text \<open>The counter of a kind in the registry file, when the file holds one.\<close>

definition persisted_counter :: "fsnode \<Rightarrow> path \<Rightarrow> string \<Rightarrow> json option" where
  "persisted_counter t registry_path kind =
     (case lookup t registry_path of
        Some (File (JsonDoc (JObj registry))) \<Rightarrow>
          (case map_of registry ''counters'' of
             Some (JObj counters) \<Rightarrow> map_of counters kind
           | _ \<Rightarrow> None)
      | _ \<Rightarrow> None)"

section \<open>Properties\<close>

subsection \<open>The file system: what an operation leaves alone\<close>

text \<open>
  Every operation of the allocator works on an entry \<open>d @ [a]\<close> of one directory
  \<open>d\<close>; whatever lies at or below another entry \<open>d @ b # r\<close> is untouched.
\<close>

lemma lookup_child: "p \<noteq> [] \<Longrightarrow> lookup (child es x) p = lookup (Dir es) (x # p)"
  by (cases p) (auto simp: child_def split: option.splits)

lemma mkdir_p_frame:
  "mkdir_p t d = Inr t' \<Longrightarrow> lookup t' (d @ x # r) = lookup t (d @ x # r)"
proof (induction t d arbitrary: t' rule: mkdir_p.induct)
  case (3 es y ys)
  then obtain n where n: "mkdir_p (child es y) ys = Inr n" and t': "t' = Dir (AList.update y n es)"
    by (auto split: sum.splits)
  have "lookup t' ((y # ys) @ x # r) = lookup n (ys @ x # r)"
    by (simp add: t' update_conv')
  also have "\<dots> = lookup (child es y) (ys @ x # r)"
    using "3.IH" [OF n] .
  also have "\<dots> = lookup (Dir es) ((y # ys) @ x # r)"
    by (simp add: lookup_child)
  finally show ?case .
qed auto

lemma mkdir_p_is_dir:
  "mkdir_p t d = Inr t' \<Longrightarrow> \<exists>es. lookup t' d = Some (Dir es)"
proof (induction t d arbitrary: t' rule: mkdir_p.induct)
  case (3 es y ys)
  then obtain n where n: "mkdir_p (child es y) ys = Inr n" and t': "t' = Dir (AList.update y n es)"
    by (auto split: sum.splits)
  from "3.IH" [OF n] show ?case
    by (simp add: t' update_conv')
qed auto

lemma put_same:
  "lookup t d = Some (Dir es) \<Longrightarrow> lookup (put t (d @ [a]) n) (d @ [a]) = Some n"
proof (induction d arbitrary: t es)
  case Nil
  then show ?case by (simp add: update_conv')
next
  case (Cons y ys)
  then show ?case
    by (cases t) (auto simp: update_conv' child_def split: option.splits)
qed

lemma put_other:
  "a \<noteq> b \<Longrightarrow> lookup (put t (d @ [a]) n) (d @ b # r) = lookup t (d @ b # r)"
proof (induction d arbitrary: t)
  case Nil
  then show ?case by (cases t) (auto simp: update_conv')
next
  case (Cons y ys)
  show ?case
  proof (cases t)
    case (File c)
    then show ?thesis by simp
  next
    case (Dir es)
    have "lookup (put t ((y # ys) @ [a]) n) ((y # ys) @ b # r)
            = lookup (put (child es y) (ys @ [a]) n) (ys @ b # r)"
      by (simp add: Dir update_conv')
    also have "\<dots> = lookup (child es y) (ys @ b # r)"
      using Cons.IH [OF Cons.prems] .
    also have "\<dots> = lookup t ((y # ys) @ b # r)"
      by (simp add: Dir lookup_child)
    finally show ?thesis .
  qed
qed

lemma put_parent:
  "lookup t d = Some (Dir es) \<Longrightarrow> \<exists>es'. lookup (put t (d @ [a]) n) d = Some (Dir es')"
proof (induction d arbitrary: t es)
  case Nil
  then show ?case by simp
next
  case (Cons y ys)
  then show ?case
    by (cases t) (auto simp: update_conv' child_def split: option.splits)
qed

lemma remove_same: "lookup (remove t (d @ [a])) (d @ [a]) = None"
proof (induction d arbitrary: t)
  case Nil
  then show ?case by (cases t) (auto simp: delete_conv')
next
  case (Cons y ys)
  then show ?case
    by (cases t) (auto simp: update_conv' split: option.splits)
qed

lemma remove_other:
  "a \<noteq> b \<Longrightarrow> lookup (remove t (d @ [a])) (d @ b # r) = lookup t (d @ b # r)"
proof (induction d arbitrary: t)
  case Nil
  then show ?case by (cases t) (auto simp: delete_conv')
next
  case (Cons y ys)
  then show ?case
    by (cases t) (auto simp: update_conv' split: option.splits)
qed

lemma remove_parent:
  "lookup t d = Some (Dir es) \<Longrightarrow> \<exists>es'. lookup (remove t (d @ [a])) d = Some (Dir es')"
proof (induction d arbitrary: t es)
  case Nil
  then show ?case by simp
next
  case (Cons y ys)
  then show ?case
    by (cases t) (auto simp: update_conv' split: option.splits)
qed

subsection \<open>The lock loop\<close>

text \<open>
  With the lock file absent the loop returns at once.  With the lock file present (and
  nobody to remove it) the loop can only time out, which it does exactly when the
  timeout is finite.
\<close>

lemma lock_loop_free:
  "lookup (fs w) lp = None \<Longrightarrow>
   lock_loop w lp tmo e =
     Some (Inr \<lparr>fd = fresh_fd (open_fds w), lock_path = lp\<rparr>,
           log [OpenExcl lp]
             (w\<lparr>fs := put (fs w) lp (File (Text [])),
                open_fds := fresh_fd (open_fds w) # open_fds w\<rparr>))"
  by (subst lock_loop.simps) simp

lemma lock_loop_held_aux:
  assumes "lock_loop w lp tmo e = Some y"
  shows "lookup (fs w) lp \<noteq> None \<longrightarrow>
         fst y = Inl TimeoutError \<and> fs (snd y) = fs w \<and> open_fds (snd y) = open_fds w
         \<and> tmo \<noteq> Never"
proof (rule lock_loop.raw_induct
    [where P = "\<lambda>w lp tmo e y. lookup (fs w) lp \<noteq> None \<longrightarrow>
         fst y = Inl TimeoutError \<and> fs (snd y) = fs w \<and> open_fds (snd y) = open_fds w
         \<and> tmo \<noteq> Never", OF _ assms])
  fix f w lp tmo e y
  assume IH: "\<And>w lp tmo e y. f w lp tmo e = Some y \<Longrightarrow> lookup (fs w) lp \<noteq> None \<longrightarrow>
         fst y = Inl TimeoutError \<and> fs (snd y) = fs w \<and> open_fds (snd y) = open_fds w
         \<and> tmo \<noteq> Never"
    and step: "(if lookup (fs w) lp = None
      then Some (Inr \<lparr>fd = fresh_fd (open_fds w), lock_path = lp\<rparr>,
                 log [OpenExcl lp]
                   (w\<lparr>fs := put (fs w) lp (File (Text [])),
                      open_fds := fresh_fd (open_fds w) # open_fds w\<rparr>))
      else if timed_out tmo e
      then Some (Inl TimeoutError, log [OpenExcl lp] w)
      else f (log [OpenExcl lp, Sleep] w) lp tmo (Suc e)) = Some y"
  show "lookup (fs w) lp \<noteq> None \<longrightarrow>
         fst y = Inl TimeoutError \<and> fs (snd y) = fs w \<and> open_fds (snd y) = open_fds w
         \<and> tmo \<noteq> Never"
  proof
    assume held: "lookup (fs w) lp \<noteq> None"
    show "fst y = Inl TimeoutError \<and> fs (snd y) = fs w \<and> open_fds (snd y) = open_fds w
          \<and> tmo \<noteq> Never"
    proof (cases "timed_out tmo e")
      case True
      with held step show ?thesis
        by (cases tmo) (auto simp: log_def)
    next
      case False
      with held step have "f (log [OpenExcl lp, Sleep] w) lp tmo (Suc e) = Some y"
        by auto
      from IH [OF this] held show ?thesis
        by (simp add: log_def)
    qed
  qed
qed

lemma lock_loop_held:
  "lock_loop w lp tmo e = Some y \<Longrightarrow> lookup (fs w) lp \<noteq> None \<Longrightarrow>
   fst y = Inl TimeoutError \<and> fs (snd y) = fs w \<and> open_fds (snd y) = open_fds w"
  using lock_loop_held_aux by blast

lemma lock_loop_Never:
  "lookup (fs w) lp \<noteq> None \<Longrightarrow> lock_loop w lp Never e = None"
  using lock_loop_held_aux [of w lp Never e]
  by (cases "lock_loop w lp Never e") auto


lemma lock_loop_Ticks:
  "lookup (fs w) lp \<noteq> None \<Longrightarrow>
   \<exists>w'. lock_loop w lp (Ticks n) e = Some (Inl TimeoutError, w')"
proof (induction "nat (n - int e)" arbitrary: w e)
  case 0
  then show ?case
    by (subst lock_loop.simps) auto
next
  case (Suc k)
  from Suc.hyps(2) have k: "k = nat (n - int (Suc e))" and nt: "\<not> n \<le> int e"
    by auto
  have held: "lookup (fs (log [OpenExcl lp, Sleep] w)) lp \<noteq> None"
    using Suc.prems by (simp add: log_def)
  from Suc.hyps(1) [OF k held] obtain w' where
    "lock_loop (log [OpenExcl lp, Sleep] w) lp (Ticks n) (Suc e) = Some (Inl TimeoutError, w')"
    by blast
  then show ?case
    using Suc.prems nt by (subst lock_loop.simps) auto
qed

lemma acquire_lock_Inr:
  assumes "acquire_lock w lp tmo = Some (Inr h, w1)"
  shows "\<exists>t1. mkdir_p (fs w) (butlast lp) = Inr t1 \<and> lookup t1 lp = None
           \<and> h = \<lparr>fd = fresh_fd (open_fds w), lock_path = lp\<rparr>
           \<and> w1 = \<lparr>fs = put t1 lp (File (Text [])),
                    open_fds = fresh_fd (open_fds w) # open_fds w,
                    io_log = io_log w @ [Mkdir (butlast lp), OpenExcl lp]\<rparr>"
proof -
  from assms obtain t1 where t1: "mkdir_p (fs w) (butlast lp) = Inr t1"
    and loop: "lock_loop (log [Mkdir (butlast lp)] (w\<lparr>fs := t1\<rparr>)) lp tmo 0 = Some (Inr h, w1)"
    by (auto simp: acquire_lock_def split: sum.splits)
  have free: "lookup t1 lp = None"
  proof (rule ccontr)
    assume "lookup t1 lp \<noteq> None"
    with lock_loop_held [OF loop] show False by (simp add: log_def)
  qed
  with loop t1 show ?thesis
    by (cases w) (auto simp: lock_loop_free log_def)
qed

lemma acquire_lock_free:
  assumes "mkdir_p (fs w) (butlast lp) = Inr t1" and "lookup t1 lp = None"
  shows "acquire_lock w lp tmo =
           Some (Inr \<lparr>fd = fresh_fd (open_fds w), lock_path = lp\<rparr>,
                 \<lparr>fs = put t1 lp (File (Text [])),
                    open_fds = fresh_fd (open_fds w) # open_fds w,
                    io_log = io_log w @ [Mkdir (butlast lp), OpenExcl lp]\<rparr>)"
  using assms by (cases w) (simp add: acquire_lock_def lock_loop_free log_def)


subsection \<open>Writing the registry and releasing the lock\<close>

lemma mkdir_p_existing: "lookup t d = Some (Dir es) \<Longrightarrow> mkdir_p t d = Inr t"
proof (induction d arbitrary: t)
  case Nil
  then show ?case by simp
next
  case (Cons y ys)
  then show ?case
    by (cases t) (auto simp: child_def update_triv split: option.splits)
qed

lemma fold_max_ge: "x \<in> set fds \<Longrightarrow> x \<le> fold max fds (m::nat)"
proof (induction fds arbitrary: m)
  case Nil
  then show ?case by simp
next
  case (Cons a fds)
  have "m \<le> fold max fds m" for m :: nat and fds
    by (induction fds arbitrary: m) (auto intro: order_trans [OF max.cobounded2])
  then have "a \<le> fold max fds (max a m)"
    by (rule order_trans [OF max.cobounded1])
  with Cons show ?case by auto
qed

lemma fresh_fd_fresh: "fresh_fd fds \<notin> set fds"
  using fold_max_ge [of "fresh_fd fds" fds 2] by (auto simp: fresh_fd_def)

lemma write_json_atomic_Inr:
  assumes "write_json_atomic env w (D @ [nm]) data = (Inr u, w')"
    and "lookup (fs w) D = Some (Dir es)"
  shows "lookup (fs w') (D @ [nm]) = Some (File (JsonDoc (JObj data)))
         \<and> lookup (fs w') (D @ [nm @ ''.tmp'']) = None
         \<and> open_fds w' = open_fds w \<and> \<not> write_fault env
         \<and> (\<exists>es'. lookup (fs w') D = Some (Dir es'))
         \<and> (\<forall>b r. b \<noteq> nm \<longrightarrow> b \<noteq> nm @ ''.tmp'' \<longrightarrow>
                lookup (fs w') (D @ b # r) = lookup (fs w) (D @ b # r))"
proof -
  let ?tmp = "D @ [nm @ ''.tmp'']"
  let ?doc = "File (JsonDoc (JObj data))"
  from assms have fsw': "fs w' = put (remove (put (fs w) ?tmp ?doc) ?tmp) (D @ [nm]) ?doc"
    and fds: "open_fds w' = open_fds w" and nf: "\<not> write_fault env"
    by (auto simp: write_json_atomic_def mkdir_p_existing with_name_suffix_def log_def Let_def
        split: option.splits fsnode.splits if_splits)
  obtain e1 where e1: "lookup (put (fs w) ?tmp ?doc) D = Some (Dir e1)"
    using put_parent [OF assms(2)] by blast
  obtain e2 where e2: "lookup (remove (put (fs w) ?tmp ?doc) ?tmp) D = Some (Dir e2)"
    using remove_parent [OF e1] by blast
  have "lookup (fs w') (D @ [nm]) = Some ?doc"
    unfolding fsw' by (rule put_same [OF e2])
  moreover have "lookup (fs w') ?tmp = None"
    unfolding fsw' by (simp add: put_other remove_same)
  moreover have "\<exists>es'. lookup (fs w') D = Some (Dir es')"
    unfolding fsw' by (rule put_parent [OF e2])
  moreover have "\<forall>b r. b \<noteq> nm \<longrightarrow> b \<noteq> nm @ ''.tmp'' \<longrightarrow>
                lookup (fs w') (D @ b # r) = lookup (fs w) (D @ b # r)"
    unfolding fsw' by (simp add: put_other remove_other)
  ultimately show ?thesis using fds nf by blast
qed

lemma write_json_atomic_Inl:
  assumes "write_json_atomic env w (D @ [nm]) data = (Inl e, w')"
    and "lookup (fs w) D = Some (Dir es)"
  shows "e = OSError \<and> open_fds w' = open_fds w
         \<and> (\<exists>es'. lookup (fs w') D = Some (Dir es'))
         \<and> (\<forall>b r. b \<noteq> nm @ ''.tmp'' \<longrightarrow>
                lookup (fs w') (D @ b # r) = lookup (fs w) (D @ b # r))"
proof -
  let ?tmp = "D @ [nm @ ''.tmp'']"
  from assms have "e = OSError \<and> open_fds w' = open_fds w
     \<and> (fs w' = fs w \<or> (\<exists>n. fs w' = put (fs w) ?tmp n))"
    by (auto simp: write_json_atomic_def mkdir_p_existing with_name_suffix_def log_def Let_def
        split: option.splits fsnode.splits if_splits)
  then show ?thesis
    using put_parent [OF assms(2), of "nm @ ''.tmp''"] assms(2)
    by (auto simp: put_other)
qed

lemma write_json_atomic_ok:
  assumes "lookup (fs w) D = Some (Dir es)" and "\<not> write_fault env"
    and "\<forall>cs. lookup (fs w) (D @ [nm]) \<noteq> Some (Dir cs)"
    and "\<forall>cs. lookup (fs w) (D @ [nm @ ''.tmp'']) \<noteq> Some (Dir cs)"
  shows "\<exists>w'. write_json_atomic env w (D @ [nm]) data = (Inr (), w')"
  using assms
  by (auto simp: write_json_atomic_def mkdir_p_existing with_name_suffix_def log_def Let_def
      put_other [of "nm @ ''.tmp''" nm _ D _ "[]"]
      split: option.splits fsnode.splits)

lemma release_lock_props:
  "lookup (fs (release_lock w \<lparr>fd = n, lock_path = D @ [a]\<rparr>)) (D @ [a]) = None"
  "a \<noteq> b \<Longrightarrow> lookup (fs (release_lock w \<lparr>fd = n, lock_path = D @ [a]\<rparr>)) (D @ b # r)
                 = lookup (fs w) (D @ b # r)"
  "open_fds (release_lock w \<lparr>fd = n, lock_path = D @ [a]\<rparr>) = removeAll n (open_fds w)"
  "lookup (fs w) D = Some (Dir es) \<Longrightarrow>
     \<exists>es'. lookup (fs (release_lock w \<lparr>fd = n, lock_path = D @ [a]\<rparr>)) D = Some (Dir es')"
  using remove_parent [of "fs w" D es a]
  by (auto simp: release_lock_def log_def remove_same remove_other)

subsection \<open>Reading and scanning see only their own paths\<close>

lemma read_registry_cong:
  "lookup t' p = lookup t p \<Longrightarrow> read_registry t' p = read_registry t p"
  by (simp add: read_registry_def)

lemma scan_max_ids_cong:
  assumes "lookup t' (s @ [''tasks'']) = lookup t (s @ [''tasks''])"
    and "lookup t' (s @ [''.sa'', ''history'']) = lookup t (s @ [''.sa'', ''history''])"
    and "lookup t' (s @ [''specs'']) = lookup t (s @ [''specs''])"
  shows "scan_max_ids t' s = scan_max_ids t s"
  unfolding scan_max_ids_def assms ..

lemma not_lock_name: "last x \<noteq> CHR ''k'' \<Longrightarrow> x \<noteq> nm @ ''.lock''"
  by auto

lemma scan_dir_form:
  assumes "root @ rel = D @ [nm]"
  shows "(rel \<noteq> [] \<and> root @ butlast rel = D) \<or> (rel = [] \<and> root @ butlast rel = D @ [nm])"
proof (cases "rel = []")
  case True
  with assms show ?thesis by simp
next
  case False
  then have "butlast (root @ rel) = root @ butlast rel"
    by (simp add: butlast_append)
  with assms False show ?thesis by simp
qed

lemma scan_max_ids_frame:
  assumes same: "\<And>b r. b \<noteq> nm @ ''.lock'' \<Longrightarrow> lookup t' (D @ b # r) = lookup t (D @ b # r)"
    and P: "root @ rel = D @ [nm]"
  shows "scan_max_ids t' (root @ butlast rel) = scan_max_ids t (root @ butlast rel)"
proof -
  from scan_dir_form [OF P] show ?thesis
  proof (elim disjE conjE)
    assume S: "root @ butlast rel = D"
    have "lookup t' (D @ ''tasks'' # []) = lookup t (D @ ''tasks'' # [])"
      "lookup t' (D @ ''.sa'' # [''history'']) = lookup t (D @ ''.sa'' # [''history''])"
      "lookup t' (D @ ''specs'' # []) = lookup t (D @ ''specs'' # [])"
      by (rule same, rule not_lock_name, simp)+
    then show ?thesis
      unfolding S by (intro scan_max_ids_cong) simp_all
  next
    assume S: "root @ butlast rel = D @ [nm]"
    have "lookup t' (D @ nm # r) = lookup t (D @ nm # r)" for r
      by (rule same) simp
    then show ?thesis
      unfolding S by (intro scan_max_ids_cong) simp_all
  qed
qed

subsection \<open>The guarded section\<close>

lemma as_dict_Inr [simp]: "as_dict v = Inr d \<longleftrightarrow> v = JObj d"
  by (cases v) (auto simp: as_dict_def)

lemma as_dict_JObj [simp]: "as_dict (JObj d) = Inr d"
  by (simp add: as_dict_def)

lemma allocate_from_cases:
  assumes "allocate_from env w P pad dry kind prefix registry = (r, w')"
  shows "((\<exists>e. r = Inl e) \<and> w' = w)
       \<or> (\<exists>counters current.
             map_of registry ''counters'' = Some (JObj counters)
           \<and> py_int (dict_get counters kind (JInt 0)) = Inr current
           \<and> (if dry then r = Inr (format_allocation P pad dry kind prefix (current + 1)) \<and> w' = w
              else (\<exists>r0. write_json_atomic env w P
                            (bump_registry env registry counters kind (current + 1)) = (r0, w')
                     \<and> (case r0 of Inl e \<Rightarrow> r = Inl e
                         | Inr u \<Rightarrow> r = Inr (format_allocation P pad dry kind prefix (current + 1))))))"
proof (cases "map_of registry ''counters''")
  case None
  with assms show ?thesis by (auto simp: allocate_from_def)
next
  case (Some cv)
  show ?thesis
  proof (cases "as_dict cv")
    case (Inl e)
    with assms Some show ?thesis by (auto simp: allocate_from_def)
  next
    case (Inr counters)
    then have cv: "cv = JObj counters" by simp
    show ?thesis
    proof (cases "py_int (dict_get counters kind (JInt 0))")
      case (Inl e)
      with assms Some Inr show ?thesis by (auto simp: allocate_from_def)
    next
      case cur: (Inr current)
      show ?thesis
      proof (cases dry)
        case True
        with assms Some Inr cur cv show ?thesis
          by (auto simp: allocate_from_def Let_def)
      next
        case False
        obtain r0 w0 where wr: "write_json_atomic env w P
            (bump_registry env registry counters kind (current + 1)) = (r0, w0)"
          by (cases "write_json_atomic env w P
            (bump_registry env registry counters kind (current + 1))")
        with assms Some Inr cur False have "w' = w0"
          and "case r0 of Inl e \<Rightarrow> r = Inl e
                 | Inr u \<Rightarrow> r = Inr (format_allocation P pad dry kind prefix (current + 1))"
          by (auto simp: allocate_from_def Let_def split: sum.splits)
        with wr Some cv cur False show ?thesis
          by auto
      qed
    qed
  qed
qed

lemma allocate_from_frame:
  assumes run: "allocate_from env w (D @ [nm]) pad dry kind prefix registry = (r, w')"
    and dir: "lookup (fs w) D = Some (Dir es)"
  shows "open_fds w' = open_fds w \<and> (\<exists>es'. lookup (fs w') D = Some (Dir es'))
         \<and> (\<forall>b r. b \<noteq> nm \<longrightarrow> b \<noteq> nm @ ''.tmp'' \<longrightarrow>
               lookup (fs w') (D @ b # r) = lookup (fs w) (D @ b # r))
         \<and> (dry \<longrightarrow> fs w' = fs w)
         \<and> ((\<exists>e. r = Inl e) \<longrightarrow> lookup (fs w') (D @ [nm]) = lookup (fs w) (D @ [nm]))"
  using allocate_from_cases [OF run]
proof (elim disjE exE conjE)
  assume "w' = w"
  with dir show ?thesis by simp
next
  fix counters current
  assume c: "if dry then r = Inr (format_allocation (D @ [nm]) pad dry kind prefix (current + 1))
                        \<and> w' = w
             else (\<exists>r0. write_json_atomic env w (D @ [nm])
                            (bump_registry env registry counters kind (current + 1)) = (r0, w')
                     \<and> (case r0 of Inl e \<Rightarrow> r = Inl e
                         | Inr u \<Rightarrow> r = Inr (format_allocation (D @ [nm]) pad dry kind prefix
                                               (current + 1))))"
  show ?thesis
  proof (cases dry)
    case True
    with c dir show ?thesis by simp
  next
    case False
    with c obtain r0 where wr: "write_json_atomic env w (D @ [nm])
                            (bump_registry env registry counters kind (current + 1)) = (r0, w')"
      and r: "case r0 of Inl e \<Rightarrow> r = Inl e
               | Inr u \<Rightarrow> r = Inr (format_allocation (D @ [nm]) pad dry kind prefix (current + 1))"
      by auto
    show ?thesis
    proof (cases r0)
      case (Inl e)
      from write_json_atomic_Inl [OF wr [unfolded Inl] dir] False show ?thesis
        by simp
    next
      case (Inr u)
      from write_json_atomic_Inr [OF wr [unfolded Inr] dir] r Inr False show ?thesis
        by simp
    qed
  qed
qed

lemma allocate_locked_cases:
  assumes "allocate_locked env w root rel pad dry scan kind = (r, w')"
  shows "((\<exists>e. r = Inl e) \<and> fs w' = fs w \<and> open_fds w' = open_fds w)
       \<or> (\<exists>prefix registry sc registry1 w1.
             kind \<in> set KIND_CHOICES \<and> map_of KIND_PREFIX kind = Some prefix
           \<and> read_registry (fs w) (root @ rel) = Inr registry
           \<and> scanned_ids scan (fs w) (root @ butlast rel) = Inr sc
           \<and> reconcile env registry sc = Inr registry1
           \<and> fs w1 = fs w \<and> open_fds w1 = open_fds w
           \<and> allocate_from env w1 (root @ rel) pad dry kind prefix registry1 = (r, w'))"
proof (cases "kind \<in> set KIND_CHOICES")
  case False
  with assms show ?thesis by (auto simp: allocate_locked_def)
next
  case kind: True
  then obtain prefix where prefix: "map_of KIND_PREFIX kind = Some prefix"
    by (auto simp: KIND_CHOICES_def KIND_PREFIX_def)
  show ?thesis
  proof (cases "read_registry (fs w) (root @ rel)")
    case (Inl e)
    with assms kind prefix show ?thesis
      by (auto simp: allocate_locked_def log_def)
  next
    case reg: (Inr registry)
    show ?thesis
    proof (cases "scanned_ids scan (fs w) (root @ butlast rel)")
      case (Inl e)
      with assms kind prefix reg show ?thesis
        by (auto simp: allocate_locked_def log_def Let_def)
    next
      case sc: (Inr sc)
      show ?thesis
      proof (cases "reconcile env registry sc")
        case (Inl e)
        with assms kind prefix reg sc show ?thesis
          by (auto simp: allocate_locked_def log_def Let_def)
      next
        case (Inr registry1)
        let ?w1 = "log (if scan then [Read (root @ rel), Scan (root @ butlast rel)]
                        else [Read (root @ rel)]) w"
        from assms kind prefix reg sc Inr
        have "allocate_from env ?w1 (root @ rel) pad dry kind prefix registry1 = (r, w')"
          by (simp add: allocate_locked_def Let_def)
        moreover have "fs ?w1 = fs w" "open_fds ?w1 = open_fds w"
          by (simp_all add: log_def)
        ultimately show ?thesis
          using kind prefix reg sc Inr by blast
      qed
    qed
  qed
qed

lemma allocate_locked_frame:
  assumes run: "allocate_locked env w root rel pad dry scan kind = (r, w')"
    and P: "root @ rel = D @ [nm]"
    and dir: "lookup (fs w) D = Some (Dir es)"
  shows "open_fds w' = open_fds w \<and> (\<exists>es'. lookup (fs w') D = Some (Dir es'))
         \<and> (\<forall>b r. b \<noteq> nm \<longrightarrow> b \<noteq> nm @ ''.tmp'' \<longrightarrow>
               lookup (fs w') (D @ b # r) = lookup (fs w) (D @ b # r))
         \<and> (dry \<longrightarrow> fs w' = fs w)
         \<and> ((\<exists>e. r = Inl e) \<longrightarrow> lookup (fs w') (D @ [nm]) = lookup (fs w) (D @ [nm]))"
  using allocate_locked_cases [OF run]
proof (elim disjE exE conjE)
  assume "fs w' = fs w" "open_fds w' = open_fds w"
  with dir show ?thesis by simp
next
  fix prefix registry sc registry1 w1
  assume w1: "fs w1 = fs w" "open_fds w1 = open_fds w"
    and af: "allocate_from env w1 (root @ rel) pad dry kind prefix registry1 = (r, w')"
  from dir w1 have dir1: "lookup (fs w1) D = Some (Dir es)" by simp
  from allocate_from_frame [OF af [unfolded P] dir1] w1 show ?thesis
    by simp
qed

subsection \<open>A call that holds the lock\<close>

lemma allocate_next_id_unfold:
  "root @ rel = D @ [nm] \<Longrightarrow>
   allocate_next_id env w root rel pad tmo dry scan kind =
     (case acquire_lock w (D @ [nm @ ''.lock'']) tmo of
        None \<Rightarrow> None
      | Some (Inl e, w1) \<Rightarrow> Some (Inl e, w1)
      | Some (Inr handle, w1) \<Rightarrow>
          (case allocate_locked env w1 root rel pad dry scan kind of
             (r, w2) \<Rightarrow> Some (r, release_lock w2 handle)))"
  by (simp add: allocate_next_id_def with_name_suffix_def)

lemma acquire_lock_world:
  assumes "acquire_lock w (D @ [a]) tmo = Some (Inr h, w1)"
  shows "h = \<lparr>fd = fresh_fd (open_fds w), lock_path = D @ [a]\<rparr>
       \<and> open_fds w1 = fresh_fd (open_fds w) # open_fds w
       \<and> (\<exists>es. lookup (fs w1) D = Some (Dir es))
       \<and> lookup (fs w1) (D @ [a]) = Some (File (Text []))
       \<and> (\<forall>b r. b \<noteq> a \<longrightarrow> lookup (fs w1) (D @ b # r) = lookup (fs w) (D @ b # r))"
proof -
  from acquire_lock_Inr [OF assms] obtain t1 where
    mk: "mkdir_p (fs w) D = Inr t1" and h: "h = \<lparr>fd = fresh_fd (open_fds w), lock_path = D @ [a]\<rparr>"
    and w1: "fs w1 = put t1 (D @ [a]) (File (Text []))"
      "open_fds w1 = fresh_fd (open_fds w) # open_fds w"
    by auto
  from mkdir_p_is_dir [OF mk] obtain es where es: "lookup t1 D = Some (Dir es)" by blast
  have "\<exists>es. lookup (fs w1) D = Some (Dir es)"
    unfolding w1 by (rule put_parent [OF es])
  moreover have "lookup (fs w1) (D @ [a]) = Some (File (Text []))"
    unfolding w1 by (rule put_same [OF es])
  moreover have "\<forall>b r. b \<noteq> a \<longrightarrow> lookup (fs w1) (D @ b # r) = lookup (fs w) (D @ b # r)"
    unfolding w1 using mkdir_p_frame [OF mk] by (simp add: put_other)
  ultimately show ?thesis using h w1 by blast
qed

lemma allocate_next_id_locked:
  assumes P: "root @ rel = D @ [nm]"
    and acq: "acquire_lock w (D @ [nm @ ''.lock'']) tmo = Some (Inr h, w1)"
  obtains r w2 where
    "allocate_locked env w1 root rel pad dry scan kind = (r, w2)"
    "allocate_next_id env w root rel pad tmo dry scan kind = Some (r, release_lock w2 h)"
    "lookup (fs (release_lock w2 h)) (D @ [nm @ ''.lock'']) = None"
    "open_fds (release_lock w2 h) = open_fds w"
    "\<exists>es. lookup (fs (release_lock w2 h)) D = Some (Dir es)"
    "\<forall>b r'. b \<noteq> nm \<longrightarrow> b \<noteq> nm @ ''.tmp'' \<longrightarrow> b \<noteq> nm @ ''.lock'' \<longrightarrow>
        lookup (fs (release_lock w2 h)) (D @ b # r') = lookup (fs w) (D @ b # r')"
    "lookup (fs (release_lock w2 h)) (D @ [nm]) = lookup (fs w2) (D @ [nm])"
    "dry \<or> (\<exists>e. r = Inl e) \<longrightarrow>
        lookup (fs (release_lock w2 h)) (D @ [nm]) = lookup (fs w) (D @ [nm])"
    "io_log (release_lock w2 h) = io_log w2 @ [Close (fd h), Unlink (D @ [nm @ ''.lock''])]"
proof -
  obtain r w2 where run: "allocate_locked env w1 root rel pad dry scan kind = (r, w2)"
    by (cases "allocate_locked env w1 root rel pad dry scan kind")
  from acquire_lock_world [OF acq] obtain es where
    h: "h = \<lparr>fd = fresh_fd (open_fds w), lock_path = D @ [nm @ ''.lock'']\<rparr>"
    and fds1: "open_fds w1 = fresh_fd (open_fds w) # open_fds w"
    and dir1: "lookup (fs w1) D = Some (Dir es)"
    and same1: "\<And>b r. b \<noteq> nm @ ''.lock'' \<Longrightarrow>
                  lookup (fs w1) (D @ b # r) = lookup (fs w) (D @ b # r)"
    by blast
  from allocate_locked_frame [OF run P dir1] obtain es2 where
    fds2: "open_fds w2 = open_fds w1"
    and dir2: "lookup (fs w2) D = Some (Dir es2)"
    and same2: "\<And>b r. b \<noteq> nm \<Longrightarrow> b \<noteq> nm @ ''.tmp'' \<Longrightarrow>
                  lookup (fs w2) (D @ b # r) = lookup (fs w1) (D @ b # r)"
    and dry2: "dry \<Longrightarrow> fs w2 = fs w1"
    and err2: "\<And>e. r = Inl e \<Longrightarrow> lookup (fs w2) (D @ [nm]) = lookup (fs w1) (D @ [nm])"
    by blast
  let ?w' = "release_lock w2 h"
  have call: "allocate_next_id env w root rel pad tmo dry scan kind = Some (r, ?w')"
    by (simp add: allocate_next_id_unfold [OF P] acq run)
  have lock: "lookup (fs ?w') (D @ [nm @ ''.lock'']) = None"
    unfolding h by (rule release_lock_props(1))
  have fds: "open_fds ?w' = open_fds w"
    unfolding h by (simp add: release_lock_props fds2 fds1 fresh_fd_fresh)
  have dir: "\<exists>es. lookup (fs ?w') D = Some (Dir es)"
    unfolding h by (rule release_lock_props(4) [OF dir2])
  have rel: "lookup (fs ?w') (D @ b # r') = lookup (fs w2) (D @ b # r')"
    if "b \<noteq> nm @ ''.lock''" for b r'
    unfolding h using that by (simp add: release_lock_props)
  have frame: "\<forall>b r'. b \<noteq> nm \<longrightarrow> b \<noteq> nm @ ''.tmp'' \<longrightarrow> b \<noteq> nm @ ''.lock'' \<longrightarrow>
                 lookup (fs ?w') (D @ b # r') = lookup (fs w) (D @ b # r')"
    by (simp add: rel same2 same1)
  have reg: "lookup (fs ?w') (D @ [nm]) = lookup (fs w2) (D @ [nm])"
    using rel [of nm "[]"] by simp
  have keep: "dry \<or> (\<exists>e. r = Inl e) \<longrightarrow>
                 lookup (fs ?w') (D @ [nm]) = lookup (fs w) (D @ [nm])"
    using reg dry2 err2 same1 [of nm "[]"] by auto
  have lg: "io_log ?w' = io_log w2 @ [Close (fd h), Unlink (D @ [nm @ ''.lock''])]"
    unfolding h by (simp add: release_lock_def log_def)
  show thesis
    by (rule that [OF run call lock fds dir frame reg keep lg])
qed

subsection \<open>A call that succeeds\<close>

lemma scanned_ids_frame:
  assumes "\<And>b r. b \<noteq> nm @ ''.lock'' \<Longrightarrow> lookup t' (D @ b # r) = lookup t (D @ b # r)"
    and "root @ rel = D @ [nm]"
  shows "scanned_ids scan t' (root @ butlast rel) = scanned_ids scan t (root @ butlast rel)"
  using scan_max_ids_frame [of nm t' D t root rel, OF assms] by (simp add: scanned_ids_def)

lemma allocate_next_id_acquired:
  assumes "allocate_next_id env w root rel pad tmo dry scan kind = Some (Inr a, w')"
  shows "\<exists>h w1. root @ rel \<noteq> []
           \<and> acquire_lock w (butlast (root @ rel) @ [last (root @ rel) @ ''.lock'']) tmo
                = Some (Inr h, w1)"
proof -
  from assms have ne: "root @ rel \<noteq> []"
    by (auto simp: allocate_next_id_def with_name_suffix_def split: if_splits)
  let ?lp = "butlast (root @ rel) @ [last (root @ rel) @ ''.lock'']"
  from assms ne obtain x where x: "acquire_lock w ?lp tmo = Some x"
    by (cases "acquire_lock w ?lp tmo") (auto simp: allocate_next_id_def with_name_suffix_def)
  obtain r0 w1 where x': "x = (r0, w1)" by (cases x)
  from assms ne x x' obtain h where "r0 = Inr h"
    by (cases r0) (auto simp: allocate_next_id_def with_name_suffix_def)
  with x x' ne show ?thesis by blast
qed


lemma allocate_from_Inr:
  assumes "allocate_from env w P pad dry kind prefix registry = (Inr a, w')"
  obtains counters current where
    "map_of registry ''counters'' = Some (JObj counters)"
    "py_int (dict_get counters kind (JInt 0)) = Inr current"
    "a = format_allocation P pad dry kind prefix (current + 1)"
    "dry \<longrightarrow> w' = w"
    "\<not> dry \<longrightarrow> (\<exists>u. write_json_atomic env w P
                        (bump_registry env registry counters kind (current + 1)) = (Inr u, w'))"
  using allocate_from_cases [OF assms]
proof (elim disjE conjE exE)
  fix e :: error
  assume "Inr a = Inl e"
  then show thesis by simp
next
  fix counters current
  assume 1: "map_of registry ''counters'' = Some (JObj counters)"
    and 2: "py_int (dict_get counters kind (JInt 0)) = Inr current"
    and 3: "if dry then Inr a = Inr (format_allocation P pad dry kind prefix (current + 1)) \<and> w' = w
            else (\<exists>r0. write_json_atomic env w P
                          (bump_registry env registry counters kind (current + 1)) = (r0, w')
                   \<and> (case r0 of Inl e \<Rightarrow> Inr a = Inl e
                       | Inr u \<Rightarrow> Inr a = Inr (format_allocation P pad dry kind prefix
                                                (current + 1))))"
  show thesis
  proof (cases dry)
    case True
    with 3 have "a = format_allocation P pad dry kind prefix (current + 1)" "dry \<longrightarrow> w' = w"
      by simp_all
    with True show thesis
      by (intro that [OF 1 2]) simp_all
  next
    case False
    obtain r0 w0 where
      wr0: "write_json_atomic env w P
              (bump_registry env registry counters kind (current + 1)) = (r0, w0)"
      by (cases "write_json_atomic env w P
              (bump_registry env registry counters kind (current + 1))")
    have "r0 = Inr () \<and> w0 = w' \<and> a = format_allocation P pad dry kind prefix (current + 1)"
      using 3 False wr0 by (cases r0) auto
    with wr0 have
      wr: "write_json_atomic env w P
             (bump_registry env registry counters kind (current + 1)) = (Inr (), w')"
      and r0: "a = format_allocation P pad dry kind prefix (current + 1)"
      by simp_all
    with False show thesis
      by (intro that [OF 1 2]) auto
  qed

qed

lemma allocate_locked_Inr:
  assumes "allocate_locked env w root rel pad dry scan kind = (Inr a, w')"
  obtains prefix registry sc registry1 w1 where
    "kind \<in> set KIND_CHOICES" "map_of KIND_PREFIX kind = Some prefix"
    "read_registry (fs w) (root @ rel) = Inr registry"
    "scanned_ids scan (fs w) (root @ butlast rel) = Inr sc"
    "reconcile env registry sc = Inr registry1"
    "fs w1 = fs w" "open_fds w1 = open_fds w"
    "allocate_from env w1 (root @ rel) pad dry kind prefix registry1 = (Inr a, w')"
  using allocate_locked_cases [OF assms]
proof (elim disjE conjE exE)
  fix e :: error
  assume "Inr a = Inl e"
  then show thesis by simp
next
  fix prefix registry sc registry1 w1
  assume "kind \<in> set KIND_CHOICES" "map_of KIND_PREFIX kind = Some prefix"
    "read_registry (fs w) (root @ rel) = Inr registry"
    "scanned_ids scan (fs w) (root @ butlast rel) = Inr sc"
    "reconcile env registry sc = Inr registry1"
    "fs w1 = fs w" "open_fds w1 = open_fds w"
    "allocate_from env w1 (root @ rel) pad dry kind prefix registry1 = (Inr a, w')"
  then show thesis by (rule that)
qed

lemma allocate_next_id_Inr:
  assumes call: "allocate_next_id env w root rel pad tmo dry scan kind = Some (Inr a, w')"
  obtains D nm prefix registry sc registry1 counters current where
    "root @ rel = D @ [nm]"
    "kind \<in> set KIND_CHOICES" "map_of KIND_PREFIX kind = Some prefix"
    "read_registry (fs w) (root @ rel) = Inr registry"
    "scanned_ids scan (fs w) (root @ butlast rel) = Inr sc"
    "reconcile env registry sc = Inr registry1"
    "map_of registry1 ''counters'' = Some (JObj counters)"
    "py_int (dict_get counters kind (JInt 0)) = Inr current"
    "a = format_allocation (root @ rel) pad dry kind prefix (current + 1)"
    "lookup (fs w') (root @ rel) =
       (if dry then lookup (fs w) (root @ rel)
        else Some (File (JsonDoc (JObj (bump_registry env registry1 counters kind (current + 1))))))"
    "lookup (fs w') (D @ [nm @ ''.lock'']) = None"
    "open_fds w' = open_fds w"
    "\<exists>es. lookup (fs w') D = Some (Dir es)"
    "\<forall>b r. b \<noteq> nm \<longrightarrow> b \<noteq> nm @ ''.tmp'' \<longrightarrow> b \<noteq> nm @ ''.lock'' \<longrightarrow>
        lookup (fs w') (D @ b # r) = lookup (fs w) (D @ b # r)"
proof -
  define D where "D = butlast (root @ rel)"
  define nm where "nm = last (root @ rel)"
  from allocate_next_id_acquired [OF call] obtain h w1 where ne: "root @ rel \<noteq> []"
    and acq: "acquire_lock w (D @ [nm @ ''.lock'']) tmo = Some (Inr h, w1)"
    unfolding D_def nm_def by blast
  from ne have P: "root @ rel = D @ [nm]"
    by (simp add: D_def nm_def)
  obtain r w2 where run0: "allocate_locked env w1 root rel pad dry scan kind = (r, w2)"
    and call2: "allocate_next_id env w root rel pad tmo dry scan kind
                  = Some (r, release_lock w2 h)"
    and lock0: "lookup (fs (release_lock w2 h)) (D @ [nm @ ''.lock'']) = None"
    and fds0: "open_fds (release_lock w2 h) = open_fds w"
    and dir0: "\<exists>es. lookup (fs (release_lock w2 h)) D = Some (Dir es)"
    and frame0: "\<forall>b r'. b \<noteq> nm \<longrightarrow> b \<noteq> nm @ ''.tmp'' \<longrightarrow> b \<noteq> nm @ ''.lock'' \<longrightarrow>
                 lookup (fs (release_lock w2 h)) (D @ b # r') = lookup (fs w) (D @ b # r')"
    and reg0: "lookup (fs (release_lock w2 h)) (D @ [nm]) = lookup (fs w2) (D @ [nm])"
    and keep0: "dry \<or> (\<exists>e. r = Inl e) \<longrightarrow>
                 lookup (fs (release_lock w2 h)) (D @ [nm]) = lookup (fs w) (D @ [nm])"
    by (rule allocate_next_id_locked [OF P acq, of env pad dry scan kind])
  from call call2 have r: "r = Inr a" and w': "w' = release_lock w2 h"
    by simp_all
  note run = run0 [unfolded r]
  note lock = lock0 [folded w']
  note fds = fds0 [folded w']
  note dir = dir0 [folded w']
  note frame = frame0 [folded w']
  note reg2 = reg0 [folded w']
  have keep: "dry \<Longrightarrow> lookup (fs w') (D @ [nm]) = lookup (fs w) (D @ [nm])"
    using keep0 w' by simp
  from acquire_lock_world [OF acq] obtain es1 where
    dir1: "lookup (fs w1) D = Some (Dir es1)"
    and same1: "\<And>b r. b \<noteq> nm @ ''.lock'' \<Longrightarrow>
                  lookup (fs w1) (D @ b # r) = lookup (fs w) (D @ b # r)"
    by blast
  obtain prefix registry sc registry1 w1' where
    kind: "kind \<in> set KIND_CHOICES" and prefix: "map_of KIND_PREFIX kind = Some prefix"
    and rd1: "read_registry (fs w1) (root @ rel) = Inr registry"
    and sc1: "scanned_ids scan (fs w1) (root @ butlast rel) = Inr sc"
    and rec: "reconcile env registry sc = Inr registry1"
    and w1': "fs w1' = fs w1" "open_fds w1' = open_fds w1"
    and af: "allocate_from env w1' (root @ rel) pad dry kind prefix registry1 = (Inr a, w2)"
    by (rule allocate_locked_Inr [OF run])
  have rd: "read_registry (fs w) (root @ rel) = Inr registry"
    using rd1 read_registry_cong [of "fs w1" "D @ [nm]" "fs w"] same1 [of nm "[]"]
    by (simp add: P)
  have sc: "scanned_ids scan (fs w) (root @ butlast rel) = Inr sc"
    using sc1 scanned_ids_frame [of nm "fs w1" D "fs w" root rel scan, OF same1 P] by simp
  obtain counters current where
    cs: "map_of registry1 ''counters'' = Some (JObj counters)"
    and cur: "py_int (dict_get counters kind (JInt 0)) = Inr current"
    and a: "a = format_allocation (root @ rel) pad dry kind prefix (current + 1)"
    and dryw: "dry \<longrightarrow> w2 = w1'"
    and rest: "\<not> dry \<longrightarrow> (\<exists>u. write_json_atomic env w1' (root @ rel)
                        (bump_registry env registry1 counters kind (current + 1)) = (Inr u, w2))"
    by (rule allocate_from_Inr [OF af])
  have reg: "lookup (fs w') (root @ rel) =
       (if dry then lookup (fs w) (root @ rel)
        else Some (File (JsonDoc (JObj (bump_registry env registry1 counters kind (current + 1))))))"
  proof (cases dry)
    case True
    with keep show ?thesis by (simp add: P)
  next
    case False
    with rest obtain u where wr: "write_json_atomic env w1' (D @ [nm])
                      (bump_registry env registry1 counters kind (current + 1)) = (Inr u, w2)"
      by (auto simp: P)
    from dir1 w1' have "lookup (fs w1') D = Some (Dir es1)" by simp
    from write_json_atomic_Inr [OF wr this] reg2 False show ?thesis
      by (simp add: P)
  qed
  show thesis
    by (rule that [OF P kind prefix rd sc rec cs cur a reg lock fds dir frame])
qed

subsection \<open>When a call returns\<close>

text \<open>
  A call with a finite timeout always returns.  A call whose timeout is never reached
  does not return when the lock file is there and nobody removes it.
\<close>

lemma acquire_lock_returns:
  "\<exists>x. acquire_lock w lp (Ticks n) = Some x"
proof (cases "mkdir_p (fs w) (butlast lp)")
  case (Inl e)
  then show ?thesis by (simp add: acquire_lock_def)
next
  case (Inr t1)
  let ?w = "log [Mkdir (butlast lp)] (w\<lparr>fs := t1\<rparr>)"
  show ?thesis
  proof (cases "lookup (fs ?w) lp")
    case None
    then show ?thesis
      by (simp add: acquire_lock_def Inr lock_loop_free)
  next
    case (Some x)
    then have "lookup (fs ?w) lp \<noteq> None" by simp
    from lock_loop_Ticks [OF this, of n 0] show ?thesis
      by (auto simp: acquire_lock_def Inr)
  qed
qed

lemma allocate_next_id_returns:
  "\<exists>r w'. allocate_next_id env w root rel pad (Ticks n) dry scan kind = Some (r, w')"
proof (cases "with_name_suffix (root @ rel) ''.lock''")
  case (Inl e)
  then show ?thesis by (simp add: allocate_next_id_def)
next
  case (Inr lp)
  from acquire_lock_returns [of w lp n] obtain r0 w0 where
    acq: "acquire_lock w lp (Ticks n) = Some (r0, w0)"
    by auto
  show ?thesis
  proof (cases r0)
    case (Inl e)
    with Inr acq show ?thesis by (simp add: allocate_next_id_def)
  next
    case h: (Inr h)
    obtain r w2 where "allocate_locked env w0 root rel pad dry scan kind = (r, w2)"
      by (cases "allocate_locked env w0 root rel pad dry scan kind")
    with Inr acq h show ?thesis by (simp add: allocate_next_id_def)
  qed
qed

lemma allocate_next_id_waits_forever:
  assumes "with_name_suffix (root @ rel) ''.lock'' = Inr lp"
    and "mkdir_p (fs w) (butlast lp) = Inr t1" and "lookup t1 lp \<noteq> None"
  shows "allocate_next_id env w root rel pad Never dry scan kind = None"
  using assms lock_loop_Never [of "log [Mkdir (butlast lp)] (w\<lparr>fs := t1\<rparr>)" lp 0]
  by (simp add: allocate_next_id_def acquire_lock_def log_def)

section \<open>The claims\<close>

lemma lock_path_form:
  assumes "with_name_suffix (root @ rel) ''.lock'' = Inr lp"
  obtains D nm where "root @ rel = D @ [nm]" "lp = D @ [nm @ ''.lock'']"
proof -
  from assms have ne: "root @ rel \<noteq> []"
    and lp: "lp = butlast (root @ rel) @ [last (root @ rel) @ ''.lock'']"
    by (auto simp: with_name_suffix_def split: if_splits)
  from ne have "root @ rel = butlast (root @ rel) @ [last (root @ rel)]"
    by simp
  then show thesis using lp by (rule that)
qed

subsection \<open>C2: the lock is released on every exit path\<close>

text \<open>
  Claim C2.  Whenever a call of \<^verbatim>\<open>allocate_next_id\<close> has acquired the lock, the call
  returns (with an allocation or with an error, whatever the kind, the registry, the
  scanned tree and the outcome of the write are), and in the world it leaves the lock
  file is gone, the descriptor of the lock is closed, closing and unlinking were the
  last two things done, and a later acquisition of the same lock succeeds at once,
  whatever its timeout.
\<close>

theorem lock_released_on_every_exit:
  assumes lp: "with_name_suffix (root @ rel) ''.lock'' = Inr lp"
    and acq: "acquire_lock w lp tmo = Some (Inr h, w1)"
  shows "\<exists>r w'. allocate_next_id env w root rel pad tmo dry scan kind = Some (r, w')
           \<and> lookup (fs w') lp = None
           \<and> fd h \<notin> set (open_fds w')
           \<and> (\<exists>evs. io_log w' = evs @ [Close (fd h), Unlink lp])
           \<and> (\<forall>tmo'. \<exists>h' w''. acquire_lock w' lp tmo' = Some (Inr h', w''))"
proof -
  from lp obtain D nm where P: "root @ rel = D @ [nm]" and lpD: "lp = D @ [nm @ ''.lock'']"
    by (rule lock_path_form)
  note acq' = acq [unfolded lpD]
  obtain r w2 where
    call: "allocate_next_id env w root rel pad tmo dry scan kind = Some (r, release_lock w2 h)"
    and lock: "lookup (fs (release_lock w2 h)) (D @ [nm @ ''.lock'']) = None"
    and fds: "open_fds (release_lock w2 h) = open_fds w"
    and dir: "\<exists>es. lookup (fs (release_lock w2 h)) D = Some (Dir es)"
    and lg: "io_log (release_lock w2 h) = io_log w2 @ [Close (fd h), Unlink (D @ [nm @ ''.lock''])]"
    by (rule allocate_next_id_locked [OF P acq', of env pad dry scan kind])
  let ?w' = "release_lock w2 h"
  from acquire_lock_world [OF acq'] have "fd h = fresh_fd (open_fds w)"
    by simp
  then have closed: "fd h \<notin> set (open_fds ?w')"
    by (simp add: fds fresh_fd_fresh)
  from dir obtain es where es: "lookup (fs ?w') D = Some (Dir es)" by blast
  have again: "\<exists>h' w''. acquire_lock ?w' lp tmo' = Some (Inr h', w'')" for tmo'
    using acquire_lock_free [of ?w' lp "fs ?w'" tmo'] mkdir_p_existing [OF es] lock
    by (simp add: lpD)
  from call lock closed lg again show ?thesis
    unfolding lpD by blast
qed

text \<open>
  The theorem at a call whose write fails (an empty tree, the default registry path,
  scanning on, a disk that refuses the temporary file).
\<close>

theorem lock_released_on_every_exit_witness:
  "with_name_suffix ([] @ default_registry) ''.lock''
     = Inr [''superagents'', ''.sa'', ''registry.json.lock'']
   \<and> acquire_lock (new_world (Dir [])) [''superagents'', ''.sa'', ''registry.json.lock''] (Ticks 100)
       = Some (Inr \<lparr>fd = 3, lock_path = [''superagents'', ''.sa'', ''registry.json.lock'']\<rparr>,
               \<lparr>fs = Dir [(''superagents'', Dir [(''.sa'',
                        Dir [(''registry.json.lock'', File (Text []))])])],
                  open_fds = [3],
                  io_log = [Mkdir [''superagents'', ''.sa''],
                            OpenExcl [''superagents'', ''.sa'', ''registry.json.lock'']]\<rparr>)
   \<and> (\<exists>r w'. allocate_next_id (env_ok\<lparr>write_fault := True\<rparr>) (new_world (Dir [])) []
                 default_registry 6 (Ticks 100) False True ''chg'' = Some (r, w')
           \<and> lookup (fs w') [''superagents'', ''.sa'', ''registry.json.lock''] = None
           \<and> 3 \<notin> set (open_fds w')
           \<and> (\<exists>evs. io_log w' = evs @ [Close 3,
                                         Unlink [''superagents'', ''.sa'', ''registry.json.lock'']])
           \<and> (\<forall>tmo'. \<exists>h' w''. acquire_lock w'
                          [''superagents'', ''.sa'', ''registry.json.lock''] tmo' = Some (Inr h', w'')))"
proof -
  have 1: "with_name_suffix ([] @ default_registry) ''.lock''
             = Inr [''superagents'', ''.sa'', ''registry.json.lock'']"
    by (simp add: with_name_suffix_def default_registry_def)
  have 2: "acquire_lock (new_world (Dir [])) [''superagents'', ''.sa'', ''registry.json.lock''] (Ticks 100)
       = Some (Inr \<lparr>fd = 3, lock_path = [''superagents'', ''.sa'', ''registry.json.lock'']\<rparr>,
               \<lparr>fs = Dir [(''superagents'', Dir [(''.sa'',
                        Dir [(''registry.json.lock'', File (Text []))])])],
                  open_fds = [3],
                  io_log = [Mkdir [''superagents'', ''.sa''],
                            OpenExcl [''superagents'', ''.sa'', ''registry.json.lock'']]\<rparr>)"
    by (simp add: acquire_lock_def new_world_def child_def log_def lock_loop.simps fresh_fd_def)
  from lock_released_on_every_exit [OF 1 2, of "env_ok\<lparr>write_fault := True\<rparr>" 6 False True "''chg''"]
  show ?thesis using 1 2 by simp
qed

subsection \<open>C7: a kind outside the recognised set\<close>




subsection \<open>C8: a pad width that is not positive\<close>











subsection \<open>C6: the \<^verbatim>\<open>last_id\<close> of a version-1 registry\<close>


text \<open>
  \<^verbatim>\<open>int\<close> ends in one of four ways, and \<^verbatim>\<open>read_registry\<close> catches two of them.
\<close>

lemma py_int_cases:
  "py_int v = Inl TypeError \<or> py_int v = Inl (ValueError InvalidLiteral)
   \<or> py_int v = Inl OverflowError \<or> (\<exists>n. py_int v = Inr n)"
  by (cases v rule: py_int.cases) (auto split: option.splits)



subsection \<open>Counters are never negative\<close>

text \<open>
  The scan starts from zero and only raises its maxima; reconciliation takes the
  maximum with the scan.  So the counter of a recognised kind is at least zero and the
  next identifier at least one.
\<close>

lemma bump_chg_ge: "m \<le> bump_chg name m"
  by (simp add: bump_chg_def split: option.splits)

lemma bump_dirs_ge: "m \<le> bump_dirs es m"
proof (induction es arbitrary: m)
  case Nil
  then show ?case by (simp add: bump_dirs_def)
next
  case (Cons e es)
  obtain name n where e: "e = (name, n)" by (cases e)
  have "m \<le> (case n of Dir cs \<Rightarrow> bump_chg name m | File c \<Rightarrow> m)"
    by (cases n) (simp_all add: bump_chg_ge)
  also have "\<dots> \<le> bump_dirs es (case n of Dir cs \<Rightarrow> bump_chg name m | File c \<Rightarrow> m)"
    by (rule Cons.IH)
  finally show ?case
    by (simp add: bump_dirs_def e)
qed

lemma bump_months_ge: "m \<le> bump_months months m"
proof (induction months arbitrary: m)
  case Nil
  then show ?case by (simp add: bump_months_def)
next
  case (Cons e es)
  obtain name n where e: "e = (name, n)" by (cases e)
  have "m \<le> (case n of Dir ts \<Rightarrow> bump_dirs ts m | File c \<Rightarrow> m)"
    by (cases n) (simp_all add: bump_dirs_ge)
  also have "\<dots> \<le> bump_months es (case n of Dir ts \<Rightarrow> bump_dirs ts m | File c \<Rightarrow> m)"
    by (rule Cons.IH)
  finally show ?case
    by (simp add: bump_months_def e)
qed

lemma bump_spec_ge: "m \<le> bump_spec t m"
  by (simp add: bump_spec_def Let_def split: option.splits prod.splits)

lemma scan_specs_ge: "scan_specs ns m = Inr r \<Longrightarrow> m \<le> r"
proof (induction ns m rule: scan_specs.induct)
  case (4 t rest max_spec)
  then show ?case
    using bump_spec_ge [of max_spec t] by auto
qed auto

lemma scan_max_ids_nonneg:
  assumes "scan_max_ids t s = Inr sc"
  shows "0 \<le> chg sc \<and> 0 \<le> spec sc"
proof -
  from assms obtain m1 m2 m3 where
    1: "(case lookup t (s @ [''tasks'']) of None \<Rightarrow> Inr 0 | Some (File c) \<Rightarrow> Inl OSError
         | Some (Dir es) \<Rightarrow> Inr (bump_dirs es 0)) = Inr m1"
    and 2: "(case lookup t (s @ [''.sa'', ''history'']) of None \<Rightarrow> Inr m1
         | Some (File c) \<Rightarrow> Inl OSError
         | Some (Dir months) \<Rightarrow> Inr (bump_months months m1)) = Inr m2"
    and 3: "(case lookup t (s @ [''specs'']) of None \<Rightarrow> Inr 0 | Some (File c) \<Rightarrow> Inr 0
         | Some (Dir ds) \<Rightarrow> scan_specs (glob_spec_md ds) 0) = Inr m3"
    and sc: "sc = \<lparr>chg = m2, spec = m3\<rparr>"
    unfolding scan_max_ids_def by (auto split: sum.splits)
  from 1 have "0 \<le> m1"
    using bump_dirs_ge [of 0] by (auto split: option.splits fsnode.splits)
  with 2 have "0 \<le> m2"
    using bump_months_ge [of m1] by (auto split: option.splits fsnode.splits intro: order_trans)
  moreover from 3 have "0 \<le> m3"
    using scan_specs_ge [of _ 0 m3] by (auto split: option.splits fsnode.splits)
  ultimately show ?thesis by (simp add: sc)
qed

lemma scanned_ids_nonneg:
  "scanned_ids scan t s = Inr sc \<Longrightarrow> 0 \<le> chg sc \<and> 0 \<le> spec sc"
  using scan_max_ids_nonneg [of t s sc] by (auto simp: scanned_ids_def split: if_splits)

lemma reconcile_counters:
  assumes "reconcile env registry sc = Inr registry1"
  obtains counters c s where
    "map_of registry1 ''counters'' = Some (JObj counters)"
    "map_of counters ''chg'' = Some (JInt c)" "map_of counters ''spec'' = Some (JInt s)"
    "chg sc \<le> c" "spec sc \<le> s"
proof (cases registry)
  case None
  with assms have "registry1 = [(''schema_version'', JInt 2),
               (''counters'', JObj [(''chg'', JInt (chg sc)), (''spec'', JInt (spec sc))]),
               (''updated_at'', JStr (now_created env))]"
    by (simp add: reconcile_def)
  then show thesis
    by (intro that [of "[(''chg'', JInt (chg sc)), (''spec'', JInt (spec sc))]" "chg sc" "spec sc"])
       simp_all
next
  case (Some reg)
  from assms Some obtain v where v: "py_int (dict_get reg ''schema_version'' (JInt 1)) = Inr v"
    by (auto simp: reconcile_def split: sum.splits)
  show thesis
  proof (cases "v = 1")
    case True
    with assms Some v obtain last_id where
      "registry1 = [(''schema_version'', JInt 2),
                    (''counters'', JObj [(''chg'', JInt (max (chg sc) last_id)),
                                         (''spec'', JInt (spec sc))]),
                    (''updated_at'', JStr (now_created env))]"
      by (auto simp: reconcile_def split: sum.splits)
    then show thesis
      by (intro that [of "[(''chg'', JInt (max (chg sc) last_id)), (''spec'', JInt (spec sc))]"
                         "max (chg sc) last_id" "spec sc"]) simp_all
  next
    case False
    with assms Some v obtain counters0 c s v2 where
      c: "py_int (dict_get counters0 ''chg'' (JInt 0)) = Inr c"
      and r1: "registry1 = AList.update ''counters''
                 (JObj (AList.update ''spec'' (JInt (max s (spec sc)))
                          (AList.update ''chg'' (JInt (max c (chg sc))) counters0)))
                 (AList.update ''schema_version'' (JInt v2) reg)"
      by (auto simp: reconcile_def Let_def split: sum.splits)
    show thesis
      by (intro that [of "AList.update ''spec'' (JInt (max s (spec sc)))
                          (AList.update ''chg'' (JInt (max c (chg sc))) counters0)"
                         "max c (chg sc)" "max s (spec sc)"])
         (simp_all add: r1 update_conv')
  qed
qed

subsection \<open>Decimal strings\<close>

lemma digit_char_digit: "d < 10 \<Longrightarrow> digit_char d \<in> set ''0123456789''"
  unfolding digit_char_def by (rule nth_mem) simp

lemma str_nat_hd: "str_nat n \<noteq> [] \<and> hd (str_nat n) \<in> set ''0123456789''"
proof (induction n rule: str_nat.induct)
  case (1 n)
  show ?case
  proof (cases "n < 10")
    case True
    then show ?thesis
      using digit_char_digit [of n] by (subst (1 2) str_nat.simps) simp
  next
    case False
    with 1 show ?thesis
      by (subst (1 2) str_nat.simps) simp
  qed
qed

lemma zfill_unsigned:
  "s \<noteq> [] \<Longrightarrow> hd s \<noteq> CHR ''+'' \<Longrightarrow> hd s \<noteq> CHR ''-'' \<Longrightarrow>
   zfill s width = replicate (nat (width - int (length s))) CHR ''0'' @ s"
  by (cases s) (simp_all add: zfill_def Let_def)

lemma zfill_py_str:
  assumes "0 \<le> i"
  shows "zfill (py_str i) width
           = replicate (nat (width - int (length (py_str i)))) CHR ''0'' @ py_str i"
proof -
  from assms have s: "py_str i = str_nat (nat i)"
    by (simp add: py_str_def)
  from str_nat_hd [of "nat i"] show ?thesis
    unfolding s by (intro zfill_unsigned) auto
qed

lemma allocate_next_id_positive:
  assumes "allocate_next_id env w root rel pad tmo dry scan kind = Some (Inr a, w')"
  obtains prefix where "map_of KIND_PREFIX kind = Some prefix" "1 \<le> a_id a"
    "a_padded_id a = zfill (py_str (a_id a)) pad"
    "a_stable_id a = prefix @ ''-'' @ a_padded_id a"
proof -
  obtain prefix registry sc registry1 counters current where
    kind: "kind \<in> set KIND_CHOICES" and prefix: "map_of KIND_PREFIX kind = Some prefix"
    and sc: "scanned_ids scan (fs w) (root @ butlast rel) = Inr sc"
    and rec: "reconcile env registry sc = Inr registry1"
    and cs: "map_of registry1 ''counters'' = Some (JObj counters)"
    and cur: "py_int (dict_get counters kind (JInt 0)) = Inr current"
    and a: "a = format_allocation (root @ rel) pad dry kind prefix (current + 1)"
    by (rule allocate_next_id_Inr [OF assms])
  obtain counters' c s where
    "map_of registry1 ''counters'' = Some (JObj counters')"
    and c: "map_of counters' ''chg'' = Some (JInt c)" "map_of counters' ''spec'' = Some (JInt s)"
    and ge: "chg sc \<le> c" "spec sc \<le> s"
    by (rule reconcile_counters [OF rec])
  with cs have same: "counters' = counters" by simp
  from scanned_ids_nonneg [OF sc] ge have "0 \<le> c" "0 \<le> s" by auto
  moreover from kind cur c have "current = c \<or> current = s"
    by (auto simp: KIND_CHOICES_def dict_get_def same)
  ultimately have "0 \<le> current" by auto
  moreover have "a_id a = current + 1"
    "a_padded_id a = zfill (py_str (current + 1)) pad"
    "a_stable_id a = prefix @ ''-'' @ zfill (py_str (current + 1)) pad"
    by (simp_all add: a format_allocation_def Let_def)
  ultimately show thesis
    using prefix by (intro that [of prefix]) simp_all
qed

subsection \<open>C10: padding never truncates\<close>

text \<open>
  Claim C10.  In every allocation the padded identifier is \<^verbatim>\<open>str(next_id)\<close> with zeros
  in front, as many as are missing to the width \<^verbatim>\<open>pad\<close> and none when the number is
  already that long; it is never shorter than \<^verbatim>\<open>pad\<close> and never loses a digit.  The
  stable identifier is the prefix of the kind, a hyphen, and that padded number.  (The
  identifier is at least one, so there is no sign for \<^verbatim>\<open>zfill\<close> to move.)
\<close>

theorem padded_id_never_truncated:
  assumes "allocate_next_id env w root rel pad tmo dry scan kind = Some (Inr a, w')"
  shows "1 \<le> a_id a
       \<and> a_padded_id a
           = replicate (nat (pad - int (length (py_str (a_id a))))) CHR ''0'' @ py_str (a_id a)
       \<and> (pad \<le> int (length (py_str (a_id a))) \<longrightarrow> a_padded_id a = py_str (a_id a))
       \<and> pad \<le> int (length (a_padded_id a))
       \<and> (\<exists>prefix. map_of KIND_PREFIX kind = Some prefix
                     \<and> a_stable_id a = prefix @ ''-'' @ a_padded_id a)"
proof -
  obtain prefix where prefix: "map_of KIND_PREFIX kind = Some prefix" and pos: "1 \<le> a_id a"
    and p: "a_padded_id a = zfill (py_str (a_id a)) pad"
    and s: "a_stable_id a = prefix @ ''-'' @ a_padded_id a"
    by (rule allocate_next_id_positive [OF assms])
  from pos have z: "zfill (py_str (a_id a)) pad
           = replicate (nat (pad - int (length (py_str (a_id a))))) CHR ''0'' @ py_str (a_id a)"
    by (intro zfill_py_str) simp
  from pos p z s prefix show ?thesis
    by auto
qed

text \<open>The theorem at a counter of 99 and a pad of two: the identifier is \<^verbatim>\<open>100\<close> in full.\<close>

theorem padded_id_never_truncated_witness:
  "allocate_next_id env_ok
     (new_world (Dir [(''registry.json'',
        File (JsonDoc (JObj [(''schema_version'', JInt 2),
                             (''counters'', JObj [(''chg'', JInt 99)])])))]))
     [] [''registry.json''] 2 (Ticks 5) True False ''chg''
   = Some (Inr \<lparr>a_id = 100, a_padded_id = ''100'', a_stable_id = ''CHG-100'',
                a_kind = ''chg'', a_registry_path = [''registry.json''], a_dry_run = True\<rparr>,
           \<lparr>fs = Dir [(''registry.json'',
                File (JsonDoc (JObj [(''schema_version'', JInt 2),
                                     (''counters'', JObj [(''chg'', JInt 99)])])))],
              open_fds = [],
              io_log = [Mkdir [], OpenExcl [''registry.json.lock''], Read [''registry.json''],
                        Close 3, Unlink [''registry.json.lock'']]\<rparr>)
   \<and> py_str 100 = ''100''
   \<and> (1::int) \<le> 100
   \<and> ''100'' = replicate (nat (2 - int (length ''100''))) CHR ''0'' @ ''100''
   \<and> (2::int) \<le> int (length ''100'')
   \<and> map_of KIND_PREFIX ''chg'' = Some ''CHG''"
proof -
  have 1: "allocate_next_id env_ok
     (new_world (Dir [(''registry.json'',
        File (JsonDoc (JObj [(''schema_version'', JInt 2),
                             (''counters'', JObj [(''chg'', JInt 99)])])))]))
     [] [''registry.json''] 2 (Ticks 5) True False ''chg''
   = Some (Inr \<lparr>a_id = 100, a_padded_id = ''100'', a_stable_id = ''CHG-100'',
                a_kind = ''chg'', a_registry_path = [''registry.json''], a_dry_run = True\<rparr>,
           \<lparr>fs = Dir [(''registry.json'',
                File (JsonDoc (JObj [(''schema_version'', JInt 2),
                                     (''counters'', JObj [(''chg'', JInt 99)])])))],
              open_fds = [],
              io_log = [Mkdir [], OpenExcl [''registry.json.lock''], Read [''registry.json''],
                        Close 3, Unlink [''registry.json.lock'']]\<rparr>)"
    by code_simp
  have 2: "py_str 100 = ''100''"
    by code_simp
  from padded_id_never_truncated [OF 1] 2 show ?thesis
    using 1 by (simp add: KIND_PREFIX_def)
qed

subsection \<open>C4: the scan as a floor for a missing registry\<close>

text \<open>
  What the code does: with the registry absent and scanning on, the identifier is one
  more than the maximum that \<^verbatim>\<open>scan_max_ids\<close> finds below the directory
  \<^verbatim>\<open>root / Path(registry_relpath).parent\<close>, that is, below the directory that holds
  the registry file.
\<close>

lemma scan_reads_registry_directory:
  assumes call: "allocate_next_id env w root rel pad tmo dry True kind = Some (Inr a, w')"
    and absent: "lookup (fs w) (root @ rel) = None"
  shows "\<exists>sc. scan_max_ids (fs w) (root @ butlast rel) = Inr sc
              \<and> a_id a = (if kind = ''chg'' then chg sc else spec sc) + 1"
proof -
  obtain prefix registry sc registry1 counters current where
    kind: "kind \<in> set KIND_CHOICES"
    and rd: "read_registry (fs w) (root @ rel) = Inr registry"
    and sc: "scanned_ids True (fs w) (root @ butlast rel) = Inr sc"
    and rec: "reconcile env registry sc = Inr registry1"
    and cs: "map_of registry1 ''counters'' = Some (JObj counters)"
    and cur: "py_int (dict_get counters kind (JInt 0)) = Inr current"
    and a: "a = format_allocation (root @ rel) pad dry kind prefix (current + 1)"
    by (rule allocate_next_id_Inr [OF call])
  from rd absent have "registry = None"
    by (simp add: read_registry_def)
  with rec cs have "counters = [(''chg'', JInt (chg sc)), (''spec'', JInt (spec sc))]"
    by (auto simp: reconcile_def)
  with cur kind have "current = (if kind = ''chg'' then chg sc else spec sc)"
    by (auto simp: KIND_CHOICES_def dict_get_def)
  with sc a show ?thesis
    by (simp add: scanned_ids_def format_allocation_def Let_def)
qed

text \<open>
  Claim C4 at the layout of the repository.  \<^verbatim>\<open>sa_new.py\<close> creates task directories
  in \<^verbatim>\<open>superagents/tasks\<close> and passes the registry path
  \<^verbatim>\<open>superagents/.sa/registry.json\<close>; \<^verbatim>\<open>sa_init.py\<close> and \<^verbatim>\<open>sa_doctor.py\<close> scan
  \<^verbatim>\<open>superagents\<close>, where the task directory \<^verbatim>\<open>000005_feat_x\<close> gives the maximum 5.
  \<^verbatim>\<open>allocate_next_id\<close> scans \<^verbatim>\<open>superagents/.sa\<close> instead, finds nothing, and returns
  the identifier 1 where the claim says 6.
\<close>

theorem scan_misses_task_directories:
  "scan_max_ids (Dir [(''superagents'', Dir [(''tasks'', Dir [(''000005_feat_x'', Dir [])])])])
     [''superagents'']
   = Inr \<lparr>chg = 5, spec = 0\<rparr>
   \<and> allocate_next_id env_ok
       (new_world (Dir [(''superagents'', Dir [(''tasks'', Dir [(''000005_feat_x'', Dir [])])])]))
       [] default_registry 6 (Ticks 100) False True ''chg''
   = Some (Inr \<lparr>a_id = 1, a_padded_id = ''000001'', a_stable_id = ''CHG-000001'',
                a_kind = ''chg'', a_registry_path = default_registry, a_dry_run = False\<rparr>,
           \<lparr>fs = Dir [(''superagents'',
                Dir [(''tasks'', Dir [(''000005_feat_x'', Dir [])]),
                     (''.sa'', Dir [(''registry.json'',
                        File (JsonDoc (JObj [(''schema_version'', JInt 2),
                                (''counters'', JObj [(''chg'', JInt 1), (''spec'', JInt 0)]),
                                (''updated_at'', JStr (now_updated env_ok))])))])])],
              open_fds = [],
              io_log = [Mkdir [''superagents'', ''.sa''],
                        OpenExcl [''superagents'', ''.sa'', ''registry.json.lock''],
                        Read [''superagents'', ''.sa'', ''registry.json''],
                        Scan [''superagents'', ''.sa''],
                        Mkdir [''superagents'', ''.sa''],
                        Write [''superagents'', ''.sa'', ''registry.json.tmp''],
                        Replace [''superagents'', ''.sa'', ''registry.json.tmp'']
                                [''superagents'', ''.sa'', ''registry.json''],
                        Close 3,
                        Unlink [''superagents'', ''.sa'', ''registry.json.lock'']]\<rparr>)"
  by code_simp

text \<open>
  The identifier 6 of the claim is returned only when the task directories lie beside
  the registry file.
\<close>

lemma scan_finds_directories_beside_registry:
  "allocate_next_id env_ok
       (new_world (Dir [(''tasks'', Dir [(''000005_feat_x'', Dir [])])]))
       [] [''registry.json''] 6 (Ticks 100) True True ''chg''
   = Some (Inr \<lparr>a_id = 6, a_padded_id = ''000006'', a_stable_id = ''CHG-000006'',
                a_kind = ''chg'', a_registry_path = [''registry.json''], a_dry_run = True\<rparr>,
           \<lparr>fs = Dir [(''tasks'', Dir [(''000005_feat_x'', Dir [])])],
              open_fds = [],
              io_log = [Mkdir [], OpenExcl [''registry.json.lock''], Read [''registry.json''],
                        Scan [], Close 3, Unlink [''registry.json.lock'']]\<rparr>)"
  by code_simp

subsection \<open>C3: migration of a version-1 registry\<close>

lemma read_registry_version1:
  assumes "lookup t p = Some (File (JsonDoc (JObj data)))"
    and "py_int (py_or (dict_get data ''schema_version'' (JInt 1)) (JInt 1)) = Inr 1"
    and "map_of data ''last_id'' = Some v" and "py_int v = Inr n"
  shows "read_registry t p
           = Inr (Some (AList.update ''last_id'' (JInt n)
                          (AList.update ''schema_version'' (JInt 1) data)))"
  using assms by (simp add: read_registry_def check_registry_def update_conv' Let_def)

text \<open>
  Claim C3 says that an allocation against a version-1 registry with \<^verbatim>\<open>last_id\<close> equal
  to \<open>L\<close> produces a registry whose \<^verbatim>\<open>counters.chg\<close> equals the maximum of the scanned
  value and \<open>L\<close>.  The registry that the allocation writes has the counter of the
  allocated kind already incremented: with \<open>L = 5\<close>, scanning off and kind \<^verbatim>\<open>chg\<close> the
  persisted \<^verbatim>\<open>counters.chg\<close> is 6, not 5.
\<close>

theorem migration_counterexample:
  "allocate_next_id env_ok
     (new_world (Dir [(''registry.json'',
        File (JsonDoc (JObj [(''schema_version'', JInt 1), (''last_id'', JInt 5)])))]))
     [] [''registry.json''] 6 (Ticks 100) False False ''chg''
   = Some (Inr \<lparr>a_id = 6, a_padded_id = ''000006'', a_stable_id = ''CHG-000006'',
                a_kind = ''chg'', a_registry_path = [''registry.json''], a_dry_run = False\<rparr>,
           \<lparr>fs = Dir [(''registry.json'',
                File (JsonDoc (JObj [(''schema_version'', JInt 2),
                                     (''counters'', JObj [(''chg'', JInt 6), (''spec'', JInt 0)]),
                                     (''updated_at'', JStr (now_updated env_ok))])))],
              open_fds = [],
              io_log = [Mkdir [], OpenExcl [''registry.json.lock''], Read [''registry.json''],
                        Mkdir [], Write [''registry.json.tmp''],
                        Replace [''registry.json.tmp''] [''registry.json''],
                        Close 3, Unlink [''registry.json.lock'']]\<rparr>)"
  by code_simp

text \<open>
  Claim C3 as amended.  For a version-1 registry whose \<^verbatim>\<open>last_id\<close> converts to \<open>L\<close>, a
  successful allocation first migrates it to the version-2 registry with
  \<^verbatim>\<open>counters.chg\<close> the maximum of the scanned value and \<open>L\<close>, \<^verbatim>\<open>counters.spec\<close> the scanned
  value and no \<^verbatim>\<open>last_id\<close>; the identifier is one more than the seeded counter of the
  kind; and unless the call is a dry run the registry written is the migrated one with
  the counter of the allocated kind incremented by one and the other counter as seeded
  (so \<^verbatim>\<open>counters.chg\<close> is at least \<open>L\<close>).  With scanning off both scanned values are 0.
\<close>

theorem migration_seeds_counters:
  assumes call: "allocate_next_id env w root rel pad tmo dry scan kind = Some (Inr a, w')"
    and doc: "lookup (fs w) (root @ rel) = Some (File (JsonDoc (JObj data)))"
    and v1: "py_int (py_or (dict_get data ''schema_version'' (JInt 1)) (JInt 1)) = Inr 1"
    and last: "map_of data ''last_id'' = Some v" and L: "py_int v = Inr L"
  shows "\<exists>sc. scanned_ids scan (fs w) (root @ butlast rel) = Inr sc
           \<and> (\<not> scan \<longrightarrow> chg sc = 0 \<and> spec sc = 0)
           \<and> reconcile env (Some (AList.update ''last_id'' (JInt L)
                                      (AList.update ''schema_version'' (JInt 1) data))) sc
               = Inr [(''schema_version'', JInt 2),
                      (''counters'', JObj [(''chg'', JInt (max (chg sc) L)),
                                           (''spec'', JInt (spec sc))]),
                      (''updated_at'', JStr (now_created env))]
           \<and> a_id a = (if kind = ''chg'' then max (chg sc) L else spec sc) + 1
           \<and> (\<not> dry \<longrightarrow>
                lookup (fs w') (root @ rel)
                  = Some (File (JsonDoc (JObj
                      [(''schema_version'', JInt 2),
                       (''counters'',
                        JObj [(''chg'', JInt (max (chg sc) L + (if kind = ''chg'' then 1 else 0))),
                              (''spec'', JInt (spec sc + (if kind = ''spec'' then 1 else 0)))]),
                       (''updated_at'', JStr (now_updated env))]))))"
proof -
  let ?reg = "AList.update ''last_id'' (JInt L) (AList.update ''schema_version'' (JInt 1) data)"
  obtain prefix registry sc registry1 counters current where
    kind: "kind \<in> set KIND_CHOICES"
    and rd: "read_registry (fs w) (root @ rel) = Inr registry"
    and sc: "scanned_ids scan (fs w) (root @ butlast rel) = Inr sc"
    and rec: "reconcile env registry sc = Inr registry1"
    and cs: "map_of registry1 ''counters'' = Some (JObj counters)"
    and cur: "py_int (dict_get counters kind (JInt 0)) = Inr current"
    and a: "a = format_allocation (root @ rel) pad dry kind prefix (current + 1)"
    and reg: "lookup (fs w') (root @ rel) =
       (if dry then lookup (fs w) (root @ rel)
        else Some (File (JsonDoc (JObj (bump_registry env registry1 counters kind (current + 1))))))"
    by (rule allocate_next_id_Inr [OF call])
  from rd read_registry_version1 [OF doc v1 last L] have registry: "registry = Some ?reg"
    by simp
  let ?seed = "[(''schema_version'', JInt 2),
                (''counters'', JObj [(''chg'', JInt (max (chg sc) L)), (''spec'', JInt (spec sc))]),
                (''updated_at'', JStr (now_created env))]"
  have seed: "reconcile env (Some ?reg) sc = Inr ?seed"
    by (simp add: reconcile_def dict_get_def update_conv')
  with rec registry have r1: "registry1 = ?seed" by simp
  with cs have counters: "counters = [(''chg'', JInt (max (chg sc) L)), (''spec'', JInt (spec sc))]"
    by simp
  from kind have k: "kind = ''chg'' \<or> kind = ''spec''"
    by (simp add: KIND_CHOICES_def)
  from cur counters k have current: "current = (if kind = ''chg'' then max (chg sc) L else spec sc)"
    by (auto simp: dict_get_def)
  have id: "a_id a = (if kind = ''chg'' then max (chg sc) L else spec sc) + 1"
    by (simp add: a format_allocation_def Let_def current)
  have zero: "\<not> scan \<longrightarrow> chg sc = 0 \<and> spec sc = 0"
    using sc by (auto simp: scanned_ids_def)
  have written: "\<not> dry \<longrightarrow>
                lookup (fs w') (root @ rel)
                  = Some (File (JsonDoc (JObj
                      [(''schema_version'', JInt 2),
                       (''counters'',
                        JObj [(''chg'', JInt (max (chg sc) L + (if kind = ''chg'' then 1 else 0))),
                              (''spec'', JInt (spec sc + (if kind = ''spec'' then 1 else 0)))]),
                       (''updated_at'', JStr (now_updated env))])))"
    using k by (auto simp: reg r1 counters current bump_registry_def)
  from sc zero seed id written show ?thesis by blast
qed

text \<open>The amended claim at \<open>L = 5\<close>, scanning off, kind \<^verbatim>\<open>spec\<close>.\<close>

theorem migration_seeds_counters_witness:
  "allocate_next_id env_ok
     (new_world (Dir [(''registry.json'',
        File (JsonDoc (JObj [(''schema_version'', JInt 1), (''last_id'', JInt 5)])))]))
     [] [''registry.json''] 6 (Ticks 100) False False ''spec''
   = Some (Inr \<lparr>a_id = 1, a_padded_id = ''000001'', a_stable_id = ''SPEC-000001'',
                a_kind = ''spec'', a_registry_path = [''registry.json''], a_dry_run = False\<rparr>,
           \<lparr>fs = Dir [(''registry.json'',
                File (JsonDoc (JObj [(''schema_version'', JInt 2),
                                     (''counters'', JObj [(''chg'', JInt 5), (''spec'', JInt 1)]),
                                     (''updated_at'', JStr (now_updated env_ok))])))],
              open_fds = [],
              io_log = [Mkdir [], OpenExcl [''registry.json.lock''], Read [''registry.json''],
                        Mkdir [], Write [''registry.json.tmp''],
                        Replace [''registry.json.tmp''] [''registry.json''],
                        Close 3, Unlink [''registry.json.lock'']]\<rparr>)
   \<and> lookup (fs (new_world (Dir [(''registry.json'',
        File (JsonDoc (JObj [(''schema_version'', JInt 1), (''last_id'', JInt 5)])))])))
        ([] @ [''registry.json''])
       = Some (File (JsonDoc (JObj [(''schema_version'', JInt 1), (''last_id'', JInt 5)])))
   \<and> py_int (py_or (dict_get [(''schema_version'', JInt 1), (''last_id'', JInt 5)]
                      ''schema_version'' (JInt 1)) (JInt 1)) = Inr 1
   \<and> map_of [(''schema_version'', JInt 1), (''last_id'', JInt 5)] ''last_id'' = Some (JInt 5)
   \<and> py_int (JInt 5) = Inr 5
   \<and> (\<exists>sc. chg sc = 0 \<and> spec sc = 0
          \<and> reconcile env_ok (Some [(''schema_version'', JInt 1), (''last_id'', JInt 5)]) sc
              = Inr [(''schema_version'', JInt 2),
                     (''counters'', JObj [(''chg'', JInt (max (chg sc) 5)),
                                          (''spec'', JInt (spec sc))]),
                     (''updated_at'', JStr (now_created env_ok))])"
proof -
  let ?data = "[(''schema_version'', JInt 1), (''last_id'', JInt 5)]"
  let ?w = "new_world (Dir [(''registry.json'', File (JsonDoc (JObj ?data)))])"
  have 1: "allocate_next_id env_ok ?w [] [''registry.json''] 6 (Ticks 100) False False ''spec''
   = Some (Inr \<lparr>a_id = 1, a_padded_id = ''000001'', a_stable_id = ''SPEC-000001'',
                a_kind = ''spec'', a_registry_path = [''registry.json''], a_dry_run = False\<rparr>,
           \<lparr>fs = Dir [(''registry.json'',
                File (JsonDoc (JObj [(''schema_version'', JInt 2),
                                     (''counters'', JObj [(''chg'', JInt 5), (''spec'', JInt 1)]),
                                     (''updated_at'', JStr (now_updated env_ok))])))],
              open_fds = [],
              io_log = [Mkdir [], OpenExcl [''registry.json.lock''], Read [''registry.json''],
                        Mkdir [], Write [''registry.json.tmp''],
                        Replace [''registry.json.tmp''] [''registry.json''],
                        Close 3, Unlink [''registry.json.lock'']]\<rparr>)"
    by code_simp
  have 2: "lookup (fs ?w) ([] @ [''registry.json'']) = Some (File (JsonDoc (JObj ?data)))"
    by (simp add: new_world_def)
  have 3: "py_int (py_or (dict_get ?data ''schema_version'' (JInt 1)) (JInt 1)) = Inr 1"
    by (simp add: dict_get_def py_or_def)
  have 4: "map_of ?data ''last_id'' = Some (JInt 5)"
    by simp
  have 5: "py_int (JInt 5) = Inr 5"
    by simp
  from migration_seeds_counters [OF 1 2 3 4 5]
  have "\<exists>sc. chg sc = 0 \<and> spec sc = 0
          \<and> reconcile env_ok (Some ?data) sc
              = Inr [(''schema_version'', JInt 2),
                     (''counters'', JObj [(''chg'', JInt (max (chg sc) 5)),
                                          (''spec'', JInt (spec sc))]),
                     (''updated_at'', JStr (now_created env_ok))]"
    by auto
  with 1 2 3 4 5 show ?thesis by blast
qed

subsection \<open>C9: what an allocation leaves in a version-2 registry\<close>

lemma check_registry_version2:
  assumes "check_registry doc = Inr reg"
    and "map_of reg ''schema_version'' = Some (JInt v)" and "2 \<le> v"
  shows "\<exists>cs. map_of reg ''counters'' = Some (JObj cs)"
proof -
  from assms(1) obtain data0 where doc: "doc = JObj data0"
    by (cases doc) (simp_all add: check_registry_def)
  from assms(1) doc obtain sv where
    sv: "py_int (py_or (dict_get data0 ''schema_version'' (JInt 1)) (JInt 1)) = Inr sv"
    by (cases "py_int (py_or (dict_get data0 ''schema_version'' (JInt 1)) (JInt 1))")
       (simp_all add: check_registry_def)
  let ?data = "AList.update ''schema_version'' (JInt sv) data0"
  show ?thesis
  proof (cases "sv = 1")
    case True
    with assms(1) doc sv obtain n where "reg = AList.update ''last_id'' (JInt n) ?data"
      by (auto simp: check_registry_def Let_def split: option.splits sum.splits error.splits)
    with assms(2,3) True show ?thesis
      by (simp add: update_conv')
  next
    case False
    with assms(1) doc sv obtain cs where "reg = AList.update ''counters'' (JObj cs) ?data"
      by (auto simp: check_registry_def Let_def split: json.splits sum.splits if_splits)
    then show ?thesis
      by (simp add: update_conv')
  qed
qed

lemma read_registry_version2:
  assumes "read_registry t p = Inr (Some reg)"
    and "map_of reg ''schema_version'' = Some (JInt v)" and "2 \<le> v"
  shows "\<exists>cs. map_of reg ''counters'' = Some (JObj cs)"
proof -
  from assms(1) obtain doc where "check_registry doc = Inr reg"
    by (auto simp: read_registry_def split: option.splits fsnode.splits fcontent.splits sum.splits)
  from check_registry_version2 [OF this assms(2,3)] show ?thesis .
qed

lemma py_or_JObj: "py_or (JObj cs) (JObj []) = JObj cs"
  by (simp add: py_or_def)

lemma py_or_JInt: "v \<noteq> 0 \<Longrightarrow> py_or (JInt v) x = JInt v"
  by (simp add: py_or_def)

text \<open>
  Claim C9.  When \<^verbatim>\<open>read_registry\<close> has loaded a registry of schema version two or
  more, a successful allocation that is no dry run writes a document in which every
  counter other than \<^verbatim>\<open>chg\<close> and \<^verbatim>\<open>spec\<close> is as loaded and every top-level field other
  than \<^verbatim>\<open>counters\<close> and \<^verbatim>\<open>updated_at\<close> is as loaded (the normalised
  \<^verbatim>\<open>schema_version\<close> is the loaded one); \<^verbatim>\<open>updated_at\<close> is the new time stamp.
\<close>

theorem allocation_keeps_other_fields:
  assumes call: "allocate_next_id env w root rel pad tmo False scan kind = Some (Inr a, w')"
    and rd: "read_registry (fs w) (root @ rel) = Inr (Some reg)"
    and sv: "map_of reg ''schema_version'' = Some (JInt v)" and v2: "2 \<le> v"
  shows "\<exists>doc cs cs'.
           lookup (fs w') (root @ rel) = Some (File (JsonDoc (JObj doc)))
         \<and> map_of reg ''counters'' = Some (JObj cs)
         \<and> map_of doc ''counters'' = Some (JObj cs')
         \<and> (\<forall>k. k \<noteq> ''chg'' \<longrightarrow> k \<noteq> ''spec'' \<longrightarrow> map_of cs' k = map_of cs k)
         \<and> (\<forall>k. k \<noteq> ''counters'' \<longrightarrow> k \<noteq> ''updated_at'' \<longrightarrow> map_of doc k = map_of reg k)
         \<and> map_of doc ''updated_at'' = Some (JStr (now_updated env))"
proof -
  obtain prefix registry sc registry1 counters current where
    kind: "kind \<in> set KIND_CHOICES"
    and rd': "read_registry (fs w) (root @ rel) = Inr registry"
    and rec: "reconcile env registry sc = Inr registry1"
    and cs1: "map_of registry1 ''counters'' = Some (JObj counters)"
    and reg': "lookup (fs w') (root @ rel) =
       (if False then lookup (fs w) (root @ rel)
        else Some (File (JsonDoc (JObj (bump_registry env registry1 counters kind (current + 1))))))"
    by (rule allocate_next_id_Inr [OF call])
  from rd rd' have registry: "registry = Some reg" by simp
  from read_registry_version2 [OF rd sv v2] obtain cs where
    cs: "map_of reg ''counters'' = Some (JObj cs)" by blast
  from v2 have v: "v \<noteq> 1" "v \<noteq> 0" by simp_all
  from rec registry sv v cs obtain c s where
    r1: "registry1 = AList.update ''counters''
           (JObj (AList.update ''spec'' (JInt s) (AList.update ''chg'' (JInt c) cs)))
           (AList.update ''schema_version'' (JInt v) reg)"
    by (auto simp: reconcile_def dict_get_def py_or_JObj py_or_JInt Let_def split: sum.splits)
  with cs1 have counters: "counters = AList.update ''spec'' (JInt s) (AList.update ''chg'' (JInt c) cs)"
    by (simp add: update_conv')
  let ?doc = "bump_registry env registry1 counters kind (current + 1)"
  let ?cs' = "AList.update kind (JInt (current + 1)) counters"
  from kind have k: "kind = ''chg'' \<or> kind = ''spec''"
    by (simp add: KIND_CHOICES_def)
  have 1: "lookup (fs w') (root @ rel) = Some (File (JsonDoc (JObj ?doc)))"
    using reg' by simp
  have 2: "map_of ?doc ''counters'' = Some (JObj ?cs')"
    by (simp add: bump_registry_def update_conv')
  have 3: "\<forall>k. k \<noteq> ''chg'' \<longrightarrow> k \<noteq> ''spec'' \<longrightarrow> map_of ?cs' k = map_of cs k"
    using k by (auto simp: counters update_conv')
  have 4: "\<forall>k. k \<noteq> ''counters'' \<longrightarrow> k \<noteq> ''updated_at'' \<longrightarrow> map_of ?doc k = map_of reg k"
    using sv by (auto simp: bump_registry_def r1 update_conv')
  have 5: "map_of ?doc ''updated_at'' = Some (JStr (now_updated env))"
    by (simp add: bump_registry_def update_conv')
  from 1 cs 2 3 4 5 show ?thesis by blast
qed

text \<open>
  The theorem at a registry of version 3 with a field \<^verbatim>\<open>owner\<close> and a counter
  \<^verbatim>\<open>legacy\<close>.
\<close>

theorem allocation_keeps_other_fields_witness:
  "allocate_next_id env_ok
     (new_world (Dir [(''registry.json'',
        File (JsonDoc (JObj [(''owner'', JStr ''ops''),
                             (''schema_version'', JInt 3),
                             (''counters'', JObj [(''chg'', JInt 4), (''legacy'', JInt 9)])])))]))
     [] [''registry.json''] 6 (Ticks 100) False False ''chg''
   = Some (Inr \<lparr>a_id = 5, a_padded_id = ''000005'', a_stable_id = ''CHG-000005'',
                a_kind = ''chg'', a_registry_path = [''registry.json''], a_dry_run = False\<rparr>,
           \<lparr>fs = Dir [(''registry.json'',
                File (JsonDoc (JObj [(''owner'', JStr ''ops''),
                                     (''schema_version'', JInt 3),
                                     (''counters'', JObj [(''chg'', JInt 5), (''legacy'', JInt 9),
                                                          (''spec'', JInt 0)]),
                                     (''updated_at'', JStr (now_updated env_ok))])))],
              open_fds = [],
              io_log = [Mkdir [], OpenExcl [''registry.json.lock''], Read [''registry.json''],
                        Mkdir [], Write [''registry.json.tmp''],
                        Replace [''registry.json.tmp''] [''registry.json''],
                        Close 3, Unlink [''registry.json.lock'']]\<rparr>)
   \<and> read_registry (fs (new_world (Dir [(''registry.json'',
        File (JsonDoc (JObj [(''owner'', JStr ''ops''),
                             (''schema_version'', JInt 3),
                             (''counters'', JObj [(''chg'', JInt 4), (''legacy'', JInt 9)])])))])))
        ([] @ [''registry.json''])
       = Inr (Some [(''owner'', JStr ''ops''), (''schema_version'', JInt 3),
                    (''counters'', JObj [(''chg'', JInt 4), (''legacy'', JInt 9)])])
   \<and> map_of [(''owner'', JStr ''ops''), (''schema_version'', JInt 3),
              (''counters'', JObj [(''chg'', JInt 4), (''legacy'', JInt 9)])] ''schema_version''
       = Some (JInt 3)
   \<and> (2::int) \<le> 3
   \<and> (\<exists>doc cs'.
         lookup (Dir [(''registry.json'',
                File (JsonDoc (JObj [(''owner'', JStr ''ops''),
                                     (''schema_version'', JInt 3),
                                     (''counters'', JObj [(''chg'', JInt 5), (''legacy'', JInt 9),
                                                          (''spec'', JInt 0)]),
                                     (''updated_at'', JStr (now_updated env_ok))])))])
                [''registry.json''] = Some (File (JsonDoc (JObj doc)))
       \<and> map_of doc ''counters'' = Some (JObj cs')
       \<and> map_of cs' ''legacy'' = Some (JInt 9)
       \<and> map_of doc ''owner'' = Some (JStr ''ops'')
       \<and> map_of doc ''schema_version'' = Some (JInt 3))"
proof -
  let ?reg = "[(''owner'', JStr ''ops''), (''schema_version'', JInt 3),
               (''counters'', JObj [(''chg'', JInt 4), (''legacy'', JInt 9)])]"
  let ?w = "new_world (Dir [(''registry.json'', File (JsonDoc (JObj ?reg)))])"
  let ?t' = "Dir [(''registry.json'',
                File (JsonDoc (JObj [(''owner'', JStr ''ops''),
                                     (''schema_version'', JInt 3),
                                     (''counters'', JObj [(''chg'', JInt 5), (''legacy'', JInt 9),
                                                          (''spec'', JInt 0)]),
                                     (''updated_at'', JStr (now_updated env_ok))])))]"
  have 1: "allocate_next_id env_ok ?w [] [''registry.json''] 6 (Ticks 100) False False ''chg''
   = Some (Inr \<lparr>a_id = 5, a_padded_id = ''000005'', a_stable_id = ''CHG-000005'',
                a_kind = ''chg'', a_registry_path = [''registry.json''], a_dry_run = False\<rparr>,
           \<lparr>fs = ?t', open_fds = [],
              io_log = [Mkdir [], OpenExcl [''registry.json.lock''], Read [''registry.json''],
                        Mkdir [], Write [''registry.json.tmp''],
                        Replace [''registry.json.tmp''] [''registry.json''],
                        Close 3, Unlink [''registry.json.lock'']]\<rparr>)"
    by code_simp
  have 2: "read_registry (fs ?w) ([] @ [''registry.json'']) = Inr (Some ?reg)"
    by code_simp
  have 3: "map_of ?reg ''schema_version'' = Some (JInt 3)"
    by simp
  have 4: "(2::int) \<le> 3"
    by simp
  from allocation_keeps_other_fields [OF 1 2 3 4] obtain doc cs cs' where
    d: "lookup (fs \<lparr>fs = ?t', open_fds = [],
              io_log = [Mkdir [], OpenExcl [''registry.json.lock''], Read [''registry.json''],
                        Mkdir [], Write [''registry.json.tmp''],
                        Replace [''registry.json.tmp''] [''registry.json''],
                        Close 3, Unlink [''registry.json.lock'']]\<rparr>) ([] @ [''registry.json''])
          = Some (File (JsonDoc (JObj doc)))"
    and c: "map_of ?reg ''counters'' = Some (JObj cs)" "map_of doc ''counters'' = Some (JObj cs')"
    and k: "\<forall>k. k \<noteq> ''chg'' \<longrightarrow> k \<noteq> ''spec'' \<longrightarrow> map_of cs' k = map_of cs k"
      "\<forall>k. k \<noteq> ''counters'' \<longrightarrow> k \<noteq> ''updated_at'' \<longrightarrow> map_of doc k = map_of ?reg k"
    by (elim exE conjE) (rule that)
  from c(1) have cs: "cs = [(''chg'', JInt 4), (''legacy'', JInt 9)]"
    by simp
  from k(1) have "map_of cs' ''legacy'' = map_of cs ''legacy''"
    by simp
  with cs have l: "map_of cs' ''legacy'' = Some (JInt 9)"
    by simp
  from k(2) have "map_of doc ''owner'' = map_of ?reg ''owner''"
    "map_of doc ''schema_version'' = map_of ?reg ''schema_version''"
    by simp_all
  then have o: "map_of doc ''owner'' = Some (JStr ''ops'')"
    "map_of doc ''schema_version'' = Some (JInt 3)"
    by simp_all
  from d have "lookup ?t' [''registry.json''] = Some (File (JsonDoc (JObj doc)))"
    by simp
  with c(2) l o have "\<exists>doc cs'.
         lookup ?t' [''registry.json''] = Some (File (JsonDoc (JObj doc)))
       \<and> map_of doc ''counters'' = Some (JObj cs')
       \<and> map_of cs' ''legacy'' = Some (JInt 9)
       \<and> map_of doc ''owner'' = Some (JStr ''ops'')
       \<and> map_of doc ''schema_version'' = Some (JInt 3)"
    by (intro exI [of _ doc] exI [of _ cs'] conjI)
  with 1 2 3 4 show ?thesis
    by (intro conjI)
qed

subsection \<open>C5: a dry run writes nothing and predicts the next identifier\<close>


lemma allocate_locked_steps:
  assumes "kind \<in> set KIND_CHOICES" "map_of KIND_PREFIX kind = Some prefix"
    "read_registry (fs w) (root @ rel) = Inr registry"
    "scanned_ids scan (fs w) (root @ butlast rel) = Inr sc"
    "reconcile env registry sc = Inr registry1"
  shows "allocate_locked env w root rel pad dry scan kind
           = allocate_from env
               (log (if scan then [Read (root @ rel), Scan (root @ butlast rel)]
                     else [Read (root @ rel)]) w)
               (root @ rel) pad dry kind prefix registry1"
  using assms by (simp add: allocate_locked_def Let_def)



text \<open>When the write of the registry succeeds in a call that is no dry run, and when it fails.\<close>

lemma allocate_from_succeeds:
  assumes cs: "map_of registry ''counters'' = Some (JObj counters)"
    and cur: "py_int (dict_get counters kind (JInt 0)) = Inr current"
    and dir: "lookup (fs w) D = Some (Dir es)" and ok: "\<not> write_fault env"
    and reg: "\<forall>cs. lookup (fs w) (D @ [nm]) \<noteq> Some (Dir cs)"
    and tmp: "\<forall>cs. lookup (fs w) (D @ [nm @ ''.tmp'']) \<noteq> Some (Dir cs)"
  shows "\<exists>w'. allocate_from env w (D @ [nm]) pad False kind prefix registry
                = (Inr (format_allocation (D @ [nm]) pad False kind prefix (current + 1)), w')
              \<and> lookup (fs w') (D @ [nm @ ''.tmp'']) = None"
proof -
  from write_json_atomic_ok [OF dir ok reg tmp] obtain w' where
    wr: "write_json_atomic env w (D @ [nm])
           (bump_registry env registry counters kind (current + 1)) = (Inr (), w')"
    by blast
  from write_json_atomic_Inr [OF wr dir] have "lookup (fs w') (D @ [nm @ ''.tmp'']) = None"
    by simp
  with cs cur wr show ?thesis
    by (simp add: allocate_from_def Let_def)
qed





text \<open>There the second call does return the identifier that the dry run announced.\<close>

lemma dry_run_then_allocate:
  "allocate_next_id env_ok
           \<lparr>fs = Dir [(''superagents'', Dir [(''.sa'', Dir [])])],
              open_fds = [],
              io_log = [Mkdir [''superagents'', ''.sa''],
                        OpenExcl [''superagents'', ''.sa'', ''registry.json.lock''],
                        Read [''superagents'', ''.sa'', ''registry.json''],
                        Close 3,
                        Unlink [''superagents'', ''.sa'', ''registry.json.lock'']]\<rparr>
           [] default_registry 6 Never False False ''chg''
   = Some (Inr \<lparr>a_id = 1, a_padded_id = ''000001'', a_stable_id = ''CHG-000001'',
                a_kind = ''chg'', a_registry_path = default_registry, a_dry_run = False\<rparr>,
           \<lparr>fs = Dir [(''superagents'',
                Dir [(''.sa'', Dir [(''registry.json'',
                        File (JsonDoc (JObj [(''schema_version'', JInt 2),
                                (''counters'', JObj [(''chg'', JInt 1), (''spec'', JInt 0)]),
                                (''updated_at'', JStr (now_updated env_ok))])))])])],
              open_fds = [],
              io_log = [Mkdir [''superagents'', ''.sa''],
                        OpenExcl [''superagents'', ''.sa'', ''registry.json.lock''],
                        Read [''superagents'', ''.sa'', ''registry.json''],
                        Close 3,
                        Unlink [''superagents'', ''.sa'', ''registry.json.lock''],
                        Mkdir [''superagents'', ''.sa''],
                        OpenExcl [''superagents'', ''.sa'', ''registry.json.lock''],
                        Read [''superagents'', ''.sa'', ''registry.json''],
                        Mkdir [''superagents'', ''.sa''],
                        Write [''superagents'', ''.sa'', ''registry.json.tmp''],
                        Replace [''superagents'', ''.sa'', ''registry.json.tmp'']
                                [''superagents'', ''.sa'', ''registry.json''],
                        Close 3,
                        Unlink [''superagents'', ''.sa'', ''registry.json.lock'']]\<rparr>)"
  by code_simp

subsection \<open>C1: successive allocations count up from one\<close>

lemma read_registry_v2:
  "lookup t p = Some (File (JsonDoc (JObj (registry_v2 c s stamp)))) \<Longrightarrow>
   read_registry t p = Inr (Some (registry_v2 c s stamp))"
  by (simp add: read_registry_def check_registry_def registry_v2_def dict_get_def py_or_def)

lemma reconcile_v2:
  "0 \<le> c \<Longrightarrow> 0 \<le> s \<Longrightarrow>
   reconcile env (Some (registry_v2 c s stamp)) \<lparr>chg = 0, spec = 0\<rparr>
     = Inr (registry_v2 c s stamp)"
  by (simp add: reconcile_def registry_v2_def dict_get_def py_or_def as_dict_def)

lemma reconcile_absent:
  "reconcile env None \<lparr>chg = 0, spec = 0\<rparr> = Inr (registry_v2 0 0 (now_created env))"
  by (simp add: reconcile_def registry_v2_def)

lemma bump_registry_v2:
  "bump_registry env (registry_v2 c s stamp) [(''chg'', JInt c), (''spec'', JInt s)] ''chg'' n
     = registry_v2 n s (now_updated env)"
  "bump_registry env (registry_v2 c s stamp) [(''chg'', JInt c), (''spec'', JInt s)] ''spec'' n
     = registry_v2 c n (now_updated env)"
  by (simp_all add: bump_registry_def registry_v2_def)

lemma allocate_step:
  assumes call: "allocate_next_id env w root rel pad tmo False False kind = Some (Inr a, w')"
    and start: "lookup (fs w) (root @ rel) = None \<and> c = 0 \<and> s = 0
              \<or> lookup (fs w) (root @ rel) = Some (File (JsonDoc (JObj (registry_v2 c s stamp))))
                \<and> 0 \<le> c \<and> 0 \<le> s"
  shows "(kind = ''chg'' \<or> kind = ''spec'')
       \<and> a_id a = (if kind = ''chg'' then c else s) + 1
       \<and> lookup (fs w') (root @ rel)
           = Some (File (JsonDoc (JObj (registry_v2 (if kind = ''chg'' then c + 1 else c)
                                                     (if kind = ''chg'' then s else s + 1)
                                                     (now_updated env)))))"
proof -
  obtain prefix registry sc registry1 counters current where
    kind: "kind \<in> set KIND_CHOICES"
    and rd: "read_registry (fs w) (root @ rel) = Inr registry"
    and sc: "scanned_ids False (fs w) (root @ butlast rel) = Inr sc"
    and rec: "reconcile env registry sc = Inr registry1"
    and cs: "map_of registry1 ''counters'' = Some (JObj counters)"
    and cur: "py_int (dict_get counters kind (JInt 0)) = Inr current"
    and a: "a = format_allocation (root @ rel) pad False kind prefix (current + 1)"
    and reg: "lookup (fs w') (root @ rel) =
       (if False then lookup (fs w) (root @ rel)
        else Some (File (JsonDoc (JObj (bump_registry env registry1 counters kind (current + 1))))))"
    by (rule allocate_next_id_Inr [OF call])
  from sc have sc0: "sc = \<lparr>chg = 0, spec = 0\<rparr>"
    by (simp add: scanned_ids_def)
  from kind have k: "kind = ''chg'' \<or> kind = ''spec''"
    by (simp add: KIND_CHOICES_def)
  from start obtain stamp' where r1: "registry1 = registry_v2 c s stamp'"
  proof (elim disjE conjE)
    assume "lookup (fs w) (root @ rel) = None" "c = 0" "s = 0"
    with rd rec sc0 have "registry1 = registry_v2 c s (now_created env)"
      by (auto simp: read_registry_def reconcile_absent)
    then show thesis by (rule that)
  next
    assume "lookup (fs w) (root @ rel) = Some (File (JsonDoc (JObj (registry_v2 c s stamp))))"
      "0 \<le> c" "0 \<le> s"
    with rd rec sc0 have "registry1 = registry_v2 c s stamp"
      by (auto simp: read_registry_v2 reconcile_v2)
    then show thesis by (rule that)
  qed
  with cs have counters: "counters = [(''chg'', JInt c), (''spec'', JInt s)]"
    by (simp add: registry_v2_def)
  from cur k have current: "current = (if kind = ''chg'' then c else s)"
    by (auto simp: counters dict_get_def)
  have id: "a_id a = (if kind = ''chg'' then c else s) + 1"
    by (simp add: a format_allocation_def Let_def current)
  have doc: "lookup (fs w') (root @ rel)
           = Some (File (JsonDoc (JObj (registry_v2 (if kind = ''chg'' then c + 1 else c)
                                                     (if kind = ''chg'' then s else s + 1)
                                                     (now_updated env)))))"
    using k by (auto simp: reg r1 counters current bump_registry_v2)
  from k id doc show ?thesis by blast
qed

lemma persisted_counter_v2:
  "lookup t p = Some (File (JsonDoc (JObj (registry_v2 c s stamp)))) \<Longrightarrow>
   persisted_counter t p ''chg'' = Some (JInt c) \<and> persisted_counter t p ''spec'' = Some (JInt s)"
  by (simp add: persisted_counter_def registry_v2_def)

lemma allocate_many_counts:
  assumes "allocate_many envs w root rel pad tmo False kind = Some rs"
    and "lookup (fs w) (root @ rel) = None \<and> c = 0 \<and> s = 0
       \<or> lookup (fs w) (root @ rel) = Some (File (JsonDoc (JObj (registry_v2 c s stamp))))
         \<and> 0 \<le> c \<and> 0 \<le> s"
  shows "length rs = length envs
       \<and> (\<forall>i < length envs.
             a_id (fst (rs ! i)) = (if kind = ''chg'' then c else s) + int i + 1
           \<and> persisted_counter (fs (snd (rs ! i))) (root @ rel) kind
               = Some (JInt ((if kind = ''chg'' then c else s) + int i + 1)))"
  using assms
proof (induction envs arbitrary: w c s stamp rs)
  case Nil
  then show ?case by simp
next
  case (Cons env envs)
  from Cons.prems(1) obtain a w' rs' where
    call: "allocate_next_id env w root rel pad tmo False False kind = Some (Inr a, w')"
    and rest: "allocate_many envs w' root rel pad tmo False kind = Some rs'"
    and rs: "rs = (a, w') # rs'"
    by (auto split: option.splits prod.splits sum.splits)
  let ?c = "if kind = ''chg'' then c + 1 else c"
  let ?s = "if kind = ''chg'' then s else s + 1"
  from allocate_step [OF call Cons.prems(2)] have
    k: "kind = ''chg'' \<or> kind = ''spec''"
    and id: "a_id a = (if kind = ''chg'' then c else s) + 1"
    and doc: "lookup (fs w') (root @ rel)
               = Some (File (JsonDoc (JObj (registry_v2 ?c ?s (now_updated env)))))"
    by simp_all
  from Cons.prems(2) have nonneg: "0 \<le> ?c" "0 \<le> ?s"
    by auto
  from doc nonneg have start': "lookup (fs w') (root @ rel) = None \<and> ?c = 0 \<and> ?s = 0
       \<or> lookup (fs w') (root @ rel)
            = Some (File (JsonDoc (JObj (registry_v2 ?c ?s (now_updated env)))))
         \<and> 0 \<le> ?c \<and> 0 \<le> ?s"
    by simp
  from Cons.IH [OF rest start'] have len: "length rs' = length envs"
    and ih: "\<And>i. i < length envs \<Longrightarrow>
             a_id (fst (rs' ! i)) = (if kind = ''chg'' then ?c else ?s) + int i + 1
           \<and> persisted_counter (fs (snd (rs' ! i))) (root @ rel) kind
               = Some (JInt ((if kind = ''chg'' then ?c else ?s) + int i + 1))"
    by simp_all
  have first: "persisted_counter (fs w') (root @ rel) kind
                 = Some (JInt ((if kind = ''chg'' then c else s) + 1))"
    using persisted_counter_v2 [OF doc] k by auto
  have "a_id (fst (rs ! i)) = (if kind = ''chg'' then c else s) + int i + 1
           \<and> persisted_counter (fs (snd (rs ! i))) (root @ rel) kind
               = Some (JInt ((if kind = ''chg'' then c else s) + int i + 1))"
    if "i < length (env # envs)" for i
  proof (cases i)
    case 0
    with id first rs show ?thesis by simp
  next
    case (Suc j)
    with that have "j < length envs" by simp
    from ih [OF this] k show ?thesis
      by (auto simp: rs Suc)
  qed
  with len rs show ?case by simp
qed

text \<open>
  Claim C1.  Start without a registry file, with scanning off, and let \<open>N\<close> calls of
  \<^verbatim>\<open>allocate_next_id\<close> for one kind, none of them a dry run, run one after the other
  and all return an allocation.  Then there are \<open>N\<close> allocations, the \<open>k\<close>-th of them
  has the raw identifier \<open>k\<close> (so the identifiers are 1, 2, ..., \<open>N\<close> in this order, each
  once), and in the registry file that the \<open>k\<close>-th call leaves the counter of the kind
  is \<open>k\<close>.  (Positions in the list count from zero.)
\<close>

theorem successive_allocations_count_up:
  assumes absent: "lookup (fs w) (root @ rel) = None"
    and run: "allocate_many envs w root rel pad tmo False kind = Some rs"
  shows "length rs = length envs
       \<and> (\<forall>i < length envs.
             a_id (fst (rs ! i)) = int i + 1
           \<and> persisted_counter (fs (snd (rs ! i))) (root @ rel) kind = Some (JInt (int i + 1)))"
  using allocate_many_counts [OF run, of 0 0 "[]"] absent by simp

text \<open>The theorem at two calls for the kind \<^verbatim>\<open>spec\<close> on an empty tree.\<close>

theorem successive_allocations_count_up_witness:
  "lookup (fs (new_world (Dir []))) ([] @ [''registry.json'']) = None
   \<and> allocate_many [env_ok, env_ok] (new_world (Dir [])) [] [''registry.json''] 6 (Ticks 100)
       False ''spec''
     = Some [(\<lparr>a_id = 1, a_padded_id = ''000001'', a_stable_id = ''SPEC-000001'',
              a_kind = ''spec'', a_registry_path = [''registry.json''], a_dry_run = False\<rparr>,
            \<lparr>fs = Dir [(''registry.json'',
                        File (JsonDoc (JObj (registry_v2 0 1 (now_updated env_ok)))))],
               open_fds = [],
               io_log = [Mkdir [], OpenExcl [''registry.json.lock''], Read [''registry.json''], Mkdir [],
                      Write [''registry.json.tmp''],
                      Replace [''registry.json.tmp''] [''registry.json''],
                      Close 3, Unlink [''registry.json.lock'']]\<rparr>),
           (\<lparr>a_id = 2, a_padded_id = ''000002'', a_stable_id = ''SPEC-000002'',
              a_kind = ''spec'', a_registry_path = [''registry.json''], a_dry_run = False\<rparr>,
            \<lparr>fs = Dir [(''registry.json'',
                        File (JsonDoc (JObj (registry_v2 0 2 (now_updated env_ok)))))],
               open_fds = [],
               io_log = [Mkdir [], OpenExcl [''registry.json.lock''], Read [''registry.json''], Mkdir [],
                      Write [''registry.json.tmp''],
                      Replace [''registry.json.tmp''] [''registry.json''],
                      Close 3, Unlink [''registry.json.lock''],
                      Mkdir [], OpenExcl [''registry.json.lock''], Read [''registry.json''],
                      Mkdir [], Write [''registry.json.tmp''],
                      Replace [''registry.json.tmp''] [''registry.json''],
                      Close 3, Unlink [''registry.json.lock'']]\<rparr>)]
   \<and> a_id (fst ((\<lparr>a_id = 1, a_padded_id = ''000001'', a_stable_id = ''SPEC-000001'',
              a_kind = ''spec'', a_registry_path = [''registry.json''], a_dry_run = False\<rparr>,
            \<lparr>fs = Dir [(''registry.json'',
                        File (JsonDoc (JObj (registry_v2 0 1 (now_updated env_ok)))))],
               open_fds = [],
               io_log = [Mkdir [], OpenExcl [''registry.json.lock''], Read [''registry.json''], Mkdir [],
                      Write [''registry.json.tmp''],
                      Replace [''registry.json.tmp''] [''registry.json''],
                      Close 3, Unlink [''registry.json.lock'']]\<rparr>))) = 1
   \<and> a_id (fst ((\<lparr>a_id = 2, a_padded_id = ''000002'', a_stable_id = ''SPEC-000002'',
              a_kind = ''spec'', a_registry_path = [''registry.json''], a_dry_run = False\<rparr>,
            \<lparr>fs = Dir [(''registry.json'',
                        File (JsonDoc (JObj (registry_v2 0 2 (now_updated env_ok)))))],
               open_fds = [],
               io_log = [Mkdir [], OpenExcl [''registry.json.lock''], Read [''registry.json''], Mkdir [],
                      Write [''registry.json.tmp''],
                      Replace [''registry.json.tmp''] [''registry.json''],
                      Close 3, Unlink [''registry.json.lock''],
                      Mkdir [], OpenExcl [''registry.json.lock''], Read [''registry.json''],
                      Mkdir [], Write [''registry.json.tmp''],
                      Replace [''registry.json.tmp''] [''registry.json''],
                      Close 3, Unlink [''registry.json.lock'']]\<rparr>))) = 2
   \<and> persisted_counter (Dir [(''registry.json'',
                        File (JsonDoc (JObj (registry_v2 0 1 (now_updated env_ok)))))])
         [''registry.json''] ''spec'' = Some (JInt 1)
   \<and> persisted_counter (Dir [(''registry.json'',
                        File (JsonDoc (JObj (registry_v2 0 2 (now_updated env_ok)))))])
         [''registry.json''] ''spec'' = Some (JInt 2)"
proof -
  have 1: "lookup (fs (new_world (Dir []))) ([] @ [''registry.json'']) = None"
    by (simp add: new_world_def)
  have 2: "allocate_many [env_ok, env_ok] (new_world (Dir [])) [] [''registry.json''] 6 (Ticks 100)
       False ''spec''
     = Some [(\<lparr>a_id = 1, a_padded_id = ''000001'', a_stable_id = ''SPEC-000001'',
              a_kind = ''spec'', a_registry_path = [''registry.json''], a_dry_run = False\<rparr>,
            \<lparr>fs = Dir [(''registry.json'',
                        File (JsonDoc (JObj (registry_v2 0 1 (now_updated env_ok)))))],
               open_fds = [],
               io_log = [Mkdir [], OpenExcl [''registry.json.lock''], Read [''registry.json''], Mkdir [],
                      Write [''registry.json.tmp''],
                      Replace [''registry.json.tmp''] [''registry.json''],
                      Close 3, Unlink [''registry.json.lock'']]\<rparr>),
           (\<lparr>a_id = 2, a_padded_id = ''000002'', a_stable_id = ''SPEC-000002'',
              a_kind = ''spec'', a_registry_path = [''registry.json''], a_dry_run = False\<rparr>,
            \<lparr>fs = Dir [(''registry.json'',
                        File (JsonDoc (JObj (registry_v2 0 2 (now_updated env_ok)))))],
               open_fds = [],
               io_log = [Mkdir [], OpenExcl [''registry.json.lock''], Read [''registry.json''], Mkdir [],
                      Write [''registry.json.tmp''],
                      Replace [''registry.json.tmp''] [''registry.json''],
                      Close 3, Unlink [''registry.json.lock''],
                      Mkdir [], OpenExcl [''registry.json.lock''], Read [''registry.json''],
                      Mkdir [], Write [''registry.json.tmp''],
                      Replace [''registry.json.tmp''] [''registry.json''],
                      Close 3, Unlink [''registry.json.lock'']]\<rparr>)]"
    by code_simp
  note t = successive_allocations_count_up [OF 1 2, THEN conjunct2, rule_format]
  have "(0::nat) < length [env_ok, env_ok]" "(1::nat) < length [env_ok, env_ok]"
    by simp_all
  from t [OF this(1)] t [OF this(2)] 1 2 show ?thesis
    by simp
qed

text \<open>
  The hypothesis that all the calls return an allocation can be met for every number of
  calls: when no write fails, the kind is one of the two, the directory of the registry
  exists or can be made, and neither the lock file nor the temporary file is left over,
  every call of the sequence succeeds.
\<close>

lemma allocate_next_id_succeeds:
  assumes P: "root @ rel = D @ [nm]" and kind: "kind \<in> set KIND_CHOICES"
    and mk: "mkdir_p (fs w) D = Inr t1"
    and lock: "lookup (fs w) (D @ [nm @ ''.lock'']) = None"
    and tmp: "lookup (fs w) (D @ [nm @ ''.tmp'']) = None"
    and ok: "\<not> write_fault env"
    and start: "lookup (fs w) (root @ rel) = None \<and> c = 0 \<and> s = 0
              \<or> lookup (fs w) (root @ rel) = Some (File (JsonDoc (JObj (registry_v2 c s stamp))))
                \<and> 0 \<le> c \<and> 0 \<le> s"
  shows "\<exists>a w'. allocate_next_id env w root rel pad tmo False False kind = Some (Inr a, w')
            \<and> lookup (fs w') (D @ [nm @ ''.lock'']) = None
            \<and> lookup (fs w') (D @ [nm @ ''.tmp'']) = None
            \<and> (\<exists>es. lookup (fs w') D = Some (Dir es))"
proof -
  let ?lp = "D @ [nm @ ''.lock'']"
  let ?h = "\<lparr>fd = fresh_fd (open_fds w), lock_path = ?lp\<rparr>"
  let ?wa = "\<lparr>fs = put t1 ?lp (File (Text [])),
               open_fds = fresh_fd (open_fds w) # open_fds w,
               io_log = io_log w @ [Mkdir (butlast ?lp), OpenExcl ?lp]\<rparr>"
  from lock mkdir_p_frame [OF mk, of "nm @ ''.lock''" "[]"] have free: "lookup t1 ?lp = None"
    by simp
  have acq: "acquire_lock w ?lp tmo = Some (Inr ?h, ?wa)"
    using mk free by (intro acquire_lock_free) simp_all
  obtain r w2 where
    run: "allocate_locked env ?wa root rel pad False False kind = (r, w2)"
    and call: "allocate_next_id env w root rel pad tmo False False kind
                 = Some (r, release_lock w2 ?h)"
    and lock': "lookup (fs (release_lock w2 ?h)) ?lp = None"
    and fds': "open_fds (release_lock w2 ?h) = open_fds w"
    and dir': "\<exists>es. lookup (fs (release_lock w2 ?h)) D = Some (Dir es)"
    by (rule allocate_next_id_locked [OF P acq, of env pad False False kind])
  from acquire_lock_world [OF acq] obtain esa where
    dira: "lookup (fs ?wa) D = Some (Dir esa)"
    and samea: "\<And>b r. b \<noteq> nm @ ''.lock'' \<Longrightarrow>
                  lookup (fs ?wa) (D @ b # r) = lookup (fs w) (D @ b # r)"
    by blast
  have rega: "lookup (fs ?wa) (D @ [nm]) = lookup (fs w) (D @ [nm])"
    using samea [of nm "[]"] by simp
  have tmpa: "lookup (fs ?wa) (D @ [nm @ ''.tmp'']) = None"
    using samea [of "nm @ ''.tmp''" "[]"] tmp by simp
  from kind obtain prefix where prefix: "map_of KIND_PREFIX kind = Some prefix"
    by (auto simp: KIND_CHOICES_def KIND_PREFIX_def)
  from kind have k: "kind = ''chg'' \<or> kind = ''spec''"
    by (simp add: KIND_CHOICES_def)
  from start obtain registry stamp' where
    rd: "read_registry (fs ?wa) (root @ rel) = Inr registry"
    and rec: "reconcile env registry \<lparr>chg = 0, spec = 0\<rparr> = Inr (registry_v2 c s stamp')"
    and nodir: "\<forall>cs. lookup (fs ?wa) (D @ [nm]) \<noteq> Some (Dir cs)"
  proof (elim disjE conjE)
    assume a: "lookup (fs w) (root @ rel) = None" "c = 0" "s = 0"
    with rega have "lookup (fs ?wa) (D @ [nm]) = None" by (simp add: P)
    then have 1: "read_registry (fs ?wa) (root @ rel) = Inr None"
      and 3: "\<forall>cs. lookup (fs ?wa) (D @ [nm]) \<noteq> Some (Dir cs)"
      by (simp_all add: read_registry_def P)
    have 2: "reconcile env None \<lparr>chg = 0, spec = 0\<rparr> = Inr (registry_v2 c s (now_created env))"
      using a by (simp add: reconcile_absent)
    from 1 2 3 show thesis by (rule that)
  next
    assume a: "lookup (fs w) (root @ rel) = Some (File (JsonDoc (JObj (registry_v2 c s stamp))))"
      "0 \<le> c" "0 \<le> s"
    with rega have l: "lookup (fs ?wa) (D @ [nm])
                         = Some (File (JsonDoc (JObj (registry_v2 c s stamp))))"
      by (simp add: P)
    then have "read_registry (fs ?wa) (root @ rel) = Inr (Some (registry_v2 c s stamp))"
      by (simp add: P read_registry_v2)
    moreover have "reconcile env (Some (registry_v2 c s stamp)) \<lparr>chg = 0, spec = 0\<rparr>
                     = Inr (registry_v2 c s stamp)"
      using a by (simp add: reconcile_v2)
    moreover from l have "\<forall>cs. lookup (fs ?wa) (D @ [nm]) \<noteq> Some (Dir cs)"
      by simp
    ultimately show thesis by (rule that)
  qed
  have sc: "scanned_ids False (fs ?wa) (root @ butlast rel) = Inr \<lparr>chg = 0, spec = 0\<rparr>"
    by (simp add: scanned_ids_def)
  let ?wb = "log (if False then [Read (root @ rel), Scan (root @ butlast rel)]
                  else [Read (root @ rel)]) ?wa"
  have steps: "allocate_locked env ?wa root rel pad False False kind
                 = allocate_from env ?wb (D @ [nm]) pad False kind prefix (registry_v2 c s stamp')"
    using allocate_locked_steps [OF kind prefix rd sc rec, of pad False] by (simp add: P)
  have cs: "map_of (registry_v2 c s stamp') ''counters''
              = Some (JObj [(''chg'', JInt c), (''spec'', JInt s)])"
    by (simp add: registry_v2_def)
  have cur: "py_int (dict_get [(''chg'', JInt c), (''spec'', JInt s)] kind (JInt 0))
               = Inr (if kind = ''chg'' then c else s)"
    using k by (auto simp: dict_get_def)
  have dirb: "lookup (fs ?wb) D = Some (Dir esa)"
    using dira by (simp add: log_def)
  have regb: "\<forall>cs. lookup (fs ?wb) (D @ [nm]) \<noteq> Some (Dir cs)"
    using nodir by (simp add: log_def)
  have tmpb: "\<forall>cs. lookup (fs ?wb) (D @ [nm @ ''.tmp'']) \<noteq> Some (Dir cs)"
    using tmpa by (simp add: log_def)
  from allocate_from_succeeds [OF cs cur dirb ok regb tmpb, of pad prefix] obtain w2' where
    af: "allocate_from env ?wb (D @ [nm]) pad False kind prefix (registry_v2 c s stamp')
           = (Inr (format_allocation (D @ [nm]) pad False kind prefix
                     ((if kind = ''chg'' then c else s) + 1)), w2')"
    and tmp2: "lookup (fs w2') (D @ [nm @ ''.tmp'']) = None"
    by blast
  from run steps af have r: "r = Inr (format_allocation (D @ [nm]) pad False kind prefix
                     ((if kind = ''chg'' then c else s) + 1))" and w2: "w2 = w2'"
    by simp_all
  have tmp': "lookup (fs (release_lock w2 ?h)) (D @ [nm @ ''.tmp'']) = None"
    using release_lock_props(2) [of "nm @ ''.lock''" "nm @ ''.tmp''" w2 "fresh_fd (open_fds w)" D "[]"]
      tmp2 w2 by simp
  from call r lock' tmp' dir' show ?thesis by blast
qed

lemma allocate_many_succeeds:
  assumes "list_all (\<lambda>env. \<not> write_fault env) envs"
    and "root @ rel = D @ [nm]" and "kind \<in> set KIND_CHOICES"
    and "mkdir_p (fs w) D = Inr t1"
    and "lookup (fs w) (D @ [nm @ ''.lock'']) = None"
    and "lookup (fs w) (D @ [nm @ ''.tmp'']) = None"
    and "lookup (fs w) (root @ rel) = None \<and> c = 0 \<and> s = 0
       \<or> lookup (fs w) (root @ rel) = Some (File (JsonDoc (JObj (registry_v2 c s stamp))))
         \<and> 0 \<le> c \<and> 0 \<le> s"
  shows "\<exists>rs. allocate_many envs w root rel pad tmo False kind = Some rs"
  using assms
proof (induction envs arbitrary: w t1 c s stamp)
  case Nil
  then show ?case by simp
next
  case (Cons env envs)
  from Cons.prems(1) have ok: "\<not> write_fault env" and oks: "list_all (\<lambda>env. \<not> write_fault env) envs"
    by simp_all
  from allocate_next_id_succeeds [OF Cons.prems(2,3,4,5,6) ok Cons.prems(7), of pad tmo]
  obtain a w' es where
    call: "allocate_next_id env w root rel pad tmo False False kind = Some (Inr a, w')"
    and lock: "lookup (fs w') (D @ [nm @ ''.lock'']) = None"
    and tmp: "lookup (fs w') (D @ [nm @ ''.tmp'']) = None"
    and dir: "lookup (fs w') D = Some (Dir es)"
    by blast
  let ?c = "if kind = ''chg'' then c + 1 else c"
  let ?s = "if kind = ''chg'' then s else s + 1"
  from allocate_step [OF call Cons.prems(7)] have
    doc: "lookup (fs w') (root @ rel)
               = Some (File (JsonDoc (JObj (registry_v2 ?c ?s (now_updated env)))))"
    by simp
  from Cons.prems(7) have nonneg: "0 \<le> ?c" "0 \<le> ?s"
    by auto
  from doc nonneg have start': "lookup (fs w') (root @ rel) = None \<and> ?c = 0 \<and> ?s = 0
       \<or> lookup (fs w') (root @ rel)
            = Some (File (JsonDoc (JObj (registry_v2 ?c ?s (now_updated env)))))
         \<and> 0 \<le> ?c \<and> 0 \<le> ?s"
    by simp
  from Cons.IH [OF oks Cons.prems(2,3) mkdir_p_existing [OF dir] lock tmp start']
  obtain rs where "allocate_many envs w' root rel pad tmo False kind = Some rs"
    by blast
  with call show ?case by simp
qed

end
